theory Spec2Isabelle
  imports Complex_Main "HOL-Library.AList"
begin

section \<open>Syntax trees handled by the document segmenter\<close>

text \<open>
  The segmenter works on two kinds of tree built by its parsing libraries: the ESTree of
  an ESM block (\<^verbatim>\<open>export const meta = {...}\<close>) and the mdast tree of the document
  body. Only the node kinds and fields that the source inspects are kept.
\<close>

datatype literal =
    LString string
  | LNumber real
  | LBigInt int
  | LBoolean bool
  | LRegExp string
  | LNull

datatype expression =
    Literal literal
  | Identifier string
  | ObjectExpression "property list"
  | OtherExpression
and property =
    Property expression expression
  | SpreadElement

datatype pattern = IdentifierPattern string | OtherPattern

datatype declarator = VariableDeclarator pattern "expression option"

datatype exported = VariableDeclaration "declarator list" | OtherDeclaration

datatype statement = ExportNamedDeclaration "exported option" | ImportDeclaration | OtherStatement

text \<open>
  An mdast node: its \<^verbatim>\<open>type\<close>, the program of \<^verbatim>\<open>data.estree.body\<close> when present,
  its children (empty for a leaf) and the text of a leaf, which only the rendering
  libraries read.
\<close>

datatype node =
  Node (node_type: string) (node_estree: "statement list option") (node_children: "node list")
    (node_text: string)

text \<open>
  The object built by \<^verbatim>\<open>getObjectFromExpression\<close>: own keys in insertion order, each
  bound to a literal or to \<^verbatim>\<open>undefined\<close> (\<open>None\<close>).
\<close>

type_synonym js_object = "(string \<times> literal option) list"

section \<open>Metadata extraction\<close>

text \<open>JavaScript truthiness of a literal value, as \<^verbatim>\<open>&&\<close> and \<^verbatim>\<open>||\<close> test it.\<close>

fun truthy :: "literal \<Rightarrow> bool" where
  "truthy (LString s) = (s \<noteq> [])"
| "truthy (LNumber r) = (r \<noteq> 0)"
| "truthy (LBigInt i) = (i \<noteq> 0)"
| "truthy (LBoolean b) = b"
| "truthy (LRegExp r) = True"
| "truthy LNull = False"

text \<open>
  \<^verbatim>\<open>(property.key.type === 'Identifier' && property.key.name) || undefined\<close>
\<close>

fun property_key :: "expression \<Rightarrow> string option" where
  "property_key (Identifier name) = (if name \<noteq> [] then Some name else None)"
| "property_key _ = None"

text \<open>
  \<^verbatim>\<open>(property.value.type === 'Literal' && property.value.value) || undefined\<close>
\<close>

fun property_value :: "expression \<Rightarrow> literal option" where
  "property_value (Literal l) = (if truthy l then Some l else None)"
| "property_value _ = None"

text \<open>The reducer of \<^verbatim>\<open>getObjectFromExpression\<close>; \<open>AList.update\<close> is \<^verbatim>\<open>{...object, [key]: value}\<close>.\<close>

fun getObjectFromExpression_step :: "js_object \<Rightarrow> property \<Rightarrow> js_object" where
  "getObjectFromExpression_step object SpreadElement = object"
| "getObjectFromExpression_step object (Property k v) =
     (case property_key k of
        None \<Rightarrow> object
      | Some key \<Rightarrow> AList.update key (property_value v) object)"

definition getObjectFromExpression :: "property list \<Rightarrow> js_object" where
  "getObjectFromExpression properties = foldl getObjectFromExpression_step [] properties"

text \<open>
  The predicate given to \<^verbatim>\<open>mdxTree.children.find\<close>: an \<^verbatim>\<open>mdxjsEsm\<close> node whose first
  statement is a named export of a variable declaration whose first declarator binds the
  identifier \<^verbatim>\<open>meta\<close>.
\<close>

fun meta_declarator :: "node \<Rightarrow> declarator option" where
  "meta_declarator (Node t (Some (ExportNamedDeclaration (Some (VariableDeclaration (d # ds))) # rest)) cs txt) = Some d"
| "meta_declarator _ = None"

definition is_meta_export :: "node \<Rightarrow> bool" where
  "is_meta_export n \<longleftrightarrow>
     node_type n = ''mdxjsEsm'' \<and>
     (case meta_declarator n of
        Some (VariableDeclarator (IdentifierPattern name) init) \<Rightarrow> name = ''meta''
      | _ \<Rightarrow> False)"

definition extractMetaExport :: "node list \<Rightarrow> js_object option" where
  "extractMetaExport children =
     (case find is_meta_export children of
        None \<Rightarrow> None
      | Some metaExportNode \<Rightarrow>
          (case meta_declarator metaExportNode of
             Some (VariableDeclarator (IdentifierPattern name) (Some (ObjectExpression properties))) \<Rightarrow>
               if name = ''meta'' then Some (getObjectFromExpression properties) else None
           | _ \<Rightarrow> None))"

text \<open>
  The value the last property written as \<^verbatim>\<open>key: ...\<close> gives to \<open>key\<close>, read off
  the property list directly (later properties override earlier ones).
\<close>

fun last_property :: "string \<Rightarrow> property list \<Rightarrow> expression option" where
  "last_property key [] = None"
| "last_property key (p # ps) =
     (case last_property key ps of
        Some v \<Rightarrow> Some v
      | None \<Rightarrow>
          (case p of
             Property k v \<Rightarrow> if property_key k = Some key then Some v else None
           | SpreadElement \<Rightarrow> None))"

text \<open>
  The statements of an ESM block, and the statements that export a variable named
  \<^verbatim>\<open>meta\<close> as any of their declarators, with any initialiser or with an object expression,
  read off the tree directly.
\<close>

definition esm_statements :: "node \<Rightarrow> statement list" where
  "esm_statements n =
     (if node_type n = ''mdxjsEsm'' then (case node_estree n of None \<Rightarrow> [] | Some body \<Rightarrow> body)
      else [])"

fun declares_meta :: "declarator \<Rightarrow> bool" where
  "declares_meta (VariableDeclarator (IdentifierPattern name) init) = (name = ''meta'')"
| "declares_meta (VariableDeclarator OtherPattern init) = False"

fun declares_meta_object :: "declarator \<Rightarrow> bool" where
  "declares_meta_object (VariableDeclarator (IdentifierPattern name) (Some (ObjectExpression properties))) =
     (name = ''meta'')"
| "declares_meta_object _ = False"

fun exports_declarator :: "(declarator \<Rightarrow> bool) \<Rightarrow> statement \<Rightarrow> bool" where
  "exports_declarator P (ExportNamedDeclaration (Some (VariableDeclaration ds))) = list_ex P ds"
| "exports_declarator P _ = False"

definition exports_meta :: "node \<Rightarrow> bool" where
  "exports_meta n = list_ex (exports_declarator declares_meta) (esm_statements n)"

definition exports_meta_object :: "node \<Rightarrow> bool" where
  "exports_meta_object n = list_ex (exports_declarator declares_meta_object) (esm_statements n)"

section \<open>Splitting the body into sections\<close>

text \<open>
  \<^verbatim>\<open>splitTreeBy\<close> reduces over the children of the root. The accumulator is the list of
  section trees built so far, each given by its children; pushing onto the last tree
  replaces the last element.
\<close>

definition splitTreeBy_step :: "(node \<Rightarrow> bool) \<Rightarrow> node list list \<Rightarrow> node \<Rightarrow> node list list" where
  "splitTreeBy_step predicate trees n =
     (if trees = [] \<or> predicate n then trees @ [[n]]
      else butlast trees @ [last trees @ [n]])"

definition splitTreeBy :: "node list \<Rightarrow> (node \<Rightarrow> bool) \<Rightarrow> node list list" where
  "splitTreeBy children predicate = foldl (splitTreeBy_step predicate) [] children"

definition is_heading :: "node \<Rightarrow> bool" where
  "is_heading n \<longleftrightarrow> node_type n = ''heading''"

section \<open>Content discovery\<close>

datatype error = HttpError | ParseError | TypeError | StoreError | EmbeddingError

text \<open>
  The remote content tree, as the content host lists it: a \<^verbatim>\<open>GithubFile\<close> of type
  \<^verbatim>\<open>'file'\<close> is \<open>GhFile name\<close>; one of type \<^verbatim>\<open>'dir'\<close> is \<open>GhDir name listing\<close>, where
  \<open>listing\<close> is the answer to the request for that directory: its entries, or
  \<open>Unreachable\<close> when the request fails.
\<close>

datatype gh_entry = GhFile string | GhDir string gh_listing
and gh_listing = Listing "gh_entry list" | Unreachable

record WalkEntry =
  entry_path :: string
  entry_parentPath :: "string option"

text \<open>The deny-lists of \<^verbatim>\<open>config.ts\<close>.\<close>

definition ignoredDirectories :: "string list" where
  "ignoredDirectories = [''03-pages'']"

definition ignoredFiles :: "string list" where
  "ignoredFiles = [''_app.mdx'', ''_document.mdx'', ''_error.mdx'']"

text \<open>
  \<^verbatim>\<open>join(dir, file.name)\<close> for a directory path and an entry name of a listing (a
  non-empty name without separators).
\<close>

definition join :: "string \<Rightarrow> string \<Rightarrow> string" where
  "join dir name = dir @ ''/'' @ name"

definition ends_with :: "string \<Rightarrow> string \<Rightarrow> bool" where
  "ends_with suffix s \<longleftrightarrow> take (length suffix) (rev s) = rev suffix"

text \<open>\<^verbatim>\<open>/\.mdx?$/.test(name)\<close>\<close>

definition hasMdxFileExtension :: "string \<Rightarrow> bool" where
  "hasMdxFileExtension name \<longleftrightarrow> ends_with ''.md'' name \<or> ends_with ''.mdx'' name"

text \<open>
  \<^verbatim>\<open>entries.sort((a, b) => a.path.localeCompare(b.path))\<close>: a stable sort by the
  collation order \<open>le a b\<close> (\<^verbatim>\<open>a.localeCompare(b) <= 0\<close>), which the locale supplies.
\<close>

fun insort_entry :: "(string \<Rightarrow> string \<Rightarrow> bool) \<Rightarrow> WalkEntry \<Rightarrow> WalkEntry list \<Rightarrow> WalkEntry list" where
  "insort_entry le x [] = [x]"
| "insort_entry le x (y # ys) =
     (if le (entry_path x) (entry_path y) then x # y # ys else y # insort_entry le x ys)"

definition sort_entries :: "(string \<Rightarrow> string \<Rightarrow> bool) \<Rightarrow> WalkEntry list \<Rightarrow> WalkEntry list" where
  "sort_entries le xs = foldr (insort_entry le) xs []"

text \<open>\<^verbatim>\<open>Promise.all\<close>: the results in order, or a rejection when one of them rejects.\<close>

fun promise_all :: "(error + 'a) list \<Rightarrow> error + 'a list" where
  "promise_all [] = Inr []"
| "promise_all (r # rs) =
     (case r of
        Inl e \<Rightarrow> Inl e
      | Inr x \<Rightarrow> (case promise_all rs of Inl e \<Rightarrow> Inl e | Inr xs \<Rightarrow> Inr (x # xs)))"

text \<open>
  \<^verbatim>\<open>walk(dir, parentPath)\<close> of the pipeline script and of \<^verbatim>\<open>githubUtils.ts\<close>; the
  last argument is the answer to the request for \<open>dir\<close>.
\<close>

fun walk :: "(string \<Rightarrow> string \<Rightarrow> bool) \<Rightarrow> string \<Rightarrow> string option \<Rightarrow> gh_listing \<Rightarrow> error + WalkEntry list"
and walk_file :: "(string \<Rightarrow> string \<Rightarrow> bool) \<Rightarrow> string \<Rightarrow> string option \<Rightarrow> gh_entry \<Rightarrow> error + WalkEntry list"
where
  "walk le dir parentPath Unreachable = Inl HttpError"
| "walk le dir parentPath (Listing files) =
     (case promise_all (map (walk_file le dir parentPath) files) of
        Inl e \<Rightarrow> Inl e
      | Inr entries \<Rightarrow> Inr (sort_entries le (concat entries)))"
| "walk_file le dir parentPath (GhDir name listing) =
     (if name \<in> set ignoredDirectories then Inr []
      else walk le (join dir name) parentPath listing)"
| "walk_file le dir parentPath (GhFile name) =
     (if name \<in> set ignoredFiles then Inr []
      else if hasMdxFileExtension name
        then Inr [\<lparr>entry_path = join dir name, entry_parentPath = parentPath\<rparr>]
      else Inr [])"

text \<open>\<^verbatim>\<open>walkGithubDirectory(dir)\<close> of the refactored script.\<close>

fun walkGithubDirectory :: "(string \<Rightarrow> string \<Rightarrow> bool) \<Rightarrow> string \<Rightarrow> gh_listing \<Rightarrow> error + WalkEntry list"
and walkGithubDirectory_file :: "(string \<Rightarrow> string \<Rightarrow> bool) \<Rightarrow> string \<Rightarrow> gh_entry \<Rightarrow> error + WalkEntry list"
where
  "walkGithubDirectory le dir Unreachable = Inl HttpError"
| "walkGithubDirectory le dir (Listing files) =
     (case promise_all (map (walkGithubDirectory_file le dir) files) of
        Inl e \<Rightarrow> Inl e
      | Inr entries \<Rightarrow> Inr (sort_entries le (concat entries)))"
| "walkGithubDirectory_file le dir (GhDir name listing) =
     (if name \<in> set ignoredDirectories then Inr []
      else walkGithubDirectory le (join dir name) listing)"
| "walkGithubDirectory_file le dir (GhFile name) =
     (if name \<in> set ignoredFiles then Inr []
      else if hasMdxFileExtension name
        then Inr [\<lparr>entry_path = join dir name, entry_parentPath = Some dir\<rparr>]
      else Inr [])"

text \<open>
  Removing every ignored directory from a listing, at every depth: what discovery may
  depend on.
\<close>

fun prune :: "gh_listing \<Rightarrow> gh_listing"
and prune_entries :: "gh_entry list \<Rightarrow> gh_entry list"
where
  "prune Unreachable = Unreachable"
| "prune (Listing files) = Listing (prune_entries files)"
| "prune_entries [] = []"
| "prune_entries (GhFile name # files) = GhFile name # prune_entries files"
| "prune_entries (GhDir name listing # files) =
     (if name \<in> set ignoredDirectories then prune_entries files
      else GhDir name (prune listing) # prune_entries files)"

section \<open>Embedding sources\<close>

text \<open>\<^verbatim>\<open>s.replace(/^docs/, '')\<close> and \<^verbatim>\<open>s.replace(/\.mdx?$/, '')\<close>\<close>

definition replace_docs_prefix :: "string \<Rightarrow> string" where
  "replace_docs_prefix s = (if take 4 s = ''docs'' then drop 4 s else s)"

definition replace_mdx_extension :: "string \<Rightarrow> string" where
  "replace_mdx_extension s =
     (if ends_with ''.mdx'' s then take (length s - 4) s
      else if ends_with ''.md'' s then take (length s - 3) s
      else s)"

record EmbeddingSource =
  src_source :: string
  src_path :: string
  src_parentPath :: "string option"
  src_filePath :: string
  src_parentFilePath :: "string option"

text \<open>The constructor of \<^verbatim>\<open>GithubEmbeddingSource\<close>.\<close>

definition GithubEmbeddingSource :: "string \<Rightarrow> string \<Rightarrow> string option \<Rightarrow> EmbeddingSource" where
  "GithubEmbeddingSource source filePath parentFilePath =
     \<lparr>src_source = source,
      src_path = replace_mdx_extension (replace_docs_prefix filePath),
      src_parentPath = map_option (replace_mdx_extension \<circ> replace_docs_prefix) parentFilePath,
      src_filePath = filePath,
      src_parentFilePath = parentFilePath\<rparr>"

section \<open>The slug generator\<close>

text \<open>
  Modelled from the spec: the stateful slug generator (class \<^verbatim>\<open>GithubSlugger\<close> of the
  \<^verbatim>\<open>github-slugger\<close> dependency, which is not under src/). It "guarantees uniqueness
  within one document by appending a numeric suffix on repeated headings": it keeps an
  object \<^verbatim>\<open>occurrences\<close> of the slugs handed out, and
  \<^verbatim>\<open>
  slug(value) {
    let result = slugify(value); const originalSlug = result
    while (own.call(occurrences, result)) {
      occurrences[originalSlug]++
      result = originalSlug + '-' + occurrences[originalSlug]
    }
    occurrences[result] = 0
    return result
  }
  \<close>
  The base function \<^verbatim>\<open>slugify\<close> (lower-casing, removal of punctuation, dashes for blanks)
  is a parameter.
\<close>

definition digit_char :: "nat \<Rightarrow> char" where
  "digit_char d = ''0123456789'' ! d"

text \<open>The decimal numeral of a counter, as string concatenation renders it.\<close>

fun show_nat :: "nat \<Rightarrow> string" where
  "show_nat n = (if n < 10 then [digit_char n] else show_nat (n div 10) @ [digit_char (n mod 10)])"

declare show_nat.simps [simp del]

text \<open>Reading a decimal numeral back; the two quantities below measure the progress of the loop.\<close>

definition read_nat :: "string \<Rightarrow> nat" where
  "read_nat s = foldl (\<lambda>a c. 10 * a + (of_char c - 48)) 0 s"

type_synonym occurrences = "(string \<times> nat) list"

definition has_own :: "occurrences \<Rightarrow> string \<Rightarrow> bool" where
  "has_own occ k \<longleftrightarrow> k \<in> fst ` set occ"

definition counter :: "occurrences \<Rightarrow> string \<Rightarrow> nat" where
  "counter occ k = (case map_of occ k of Some c \<Rightarrow> c | None \<Rightarrow> 0)"

definition pending :: "occurrences \<Rightarrow> string \<Rightarrow> nat \<Rightarrow> string set" where
  "pending occ original c =
     {k \<in> insert original (fst ` set occ). \<exists>m \<ge> c. k = original @ ''-'' @ show_nat m}"

definition slug_measure :: "occurrences \<times> string \<times> string \<Rightarrow> nat" where
  "slug_measure = (\<lambda>(occ, original, result).
     2 * card (pending occ original (counter occ original))
     + (if result = original @ ''-'' @ show_nat (counter occ original) then 0 else 1))"

text \<open>
  The loop ends because the numerals of distinct counters are distinct and the
  occurrences are finitely many: each turn either leaves the suffixed slugs still to be
  tried fewer, or (on the first turn) brings the candidate into suffixed form.
\<close>

function slug_loop :: "occurrences \<Rightarrow> string \<Rightarrow> string \<Rightarrow> occurrences \<times> string" where
  "slug_loop occ original result =
     (if has_own occ result then
        let n = Suc (counter occ original) in
          slug_loop (AList.update original n occ) original (original @ ''-'' @ show_nat n)
      else (occ, result))"
  by pat_completeness auto
termination
proof (relation "measure slug_measure")
  show "wf (measure slug_measure)" by simp
next
  fix occ :: occurrences and original result :: string and n :: nat
  assume own: "has_own occ result" and n: "n = Suc (counter occ original)"
  have digit: "of_char (digit_char d) = 48 + d" if "d < 10" for d :: nat
  proof -
    have "d \<in> set [0..<10]" using that by simp
    then show ?thesis unfolding digit_char_def by (simp add: upt_rec) (elim disjE; simp)
  qed
  have read_show: "read_nat (show_nat k) = k" for k
  proof (induction k rule: show_nat.induct)
    case (1 k)
    show ?case
    proof (cases "k < 10")
      case True
      then show ?thesis by (subst show_nat.simps) (simp add: read_nat_def digit)
    next
      case False
      have "read_nat (show_nat k)
          = 10 * read_nat (show_nat (k div 10)) + (of_char (digit_char (k mod 10)) - 48)"
        using False by (subst show_nat.simps) (simp add: read_nat_def)
      also have "\<dots> = 10 * (k div 10) + k mod 10"
        using 1 False by (simp add: digit)
      finally show ?thesis by simp
    qed
  qed
  have inj: "a = b" if "show_nat a = show_nat b" for a b
    using that by (metis read_show)
  let ?c = "counter occ original"
  let ?occ' = "AList.update original (Suc ?c) occ"
  have same: "pending ?occ' original (Suc ?c) = pending occ original (Suc ?c)"
    by (simp add: pending_def dom_update)
  have cnt: "counter ?occ' original = Suc ?c"
    by (simp add: counter_def update_conv')
  have fin: "finite (pending occ original ?c)"
    by (simp add: pending_def)
  have sub: "pending occ original (Suc ?c) \<subseteq> pending occ original ?c"
    unfolding pending_def by (blast intro: Suc_leD)
  have "slug_measure (?occ', original, original @ ''-'' @ show_nat (Suc ?c))
      < slug_measure (occ, original, result)"
  proof (cases "result = original @ ''-'' @ show_nat ?c")
    case True
    then have "result \<in> pending occ original ?c"
      using own by (auto simp: has_own_def pending_def)
    moreover have "result \<notin> pending occ original (Suc ?c)"
      using True by (auto simp: pending_def dest: inj)
    ultimately have "pending occ original (Suc ?c) \<subset> pending occ original ?c"
      using sub by blast
    then have "card (pending occ original (Suc ?c)) < card (pending occ original ?c)"
      by (rule psubset_card_mono [OF fin])
    then show ?thesis
      using True by (simp add: slug_measure_def same cnt)
  next
    case False
    have "card (pending occ original (Suc ?c)) \<le> card (pending occ original ?c)"
      by (rule card_mono [OF fin sub])
    then show ?thesis
      using False by (simp add: slug_measure_def same cnt)
  qed
  then show "((AList.update original n occ, original, original @ ''-'' @ show_nat n), (occ, original, result))
      \<in> measure slug_measure"
    using n by simp
qed

declare slug_loop.simps [simp del]

definition slugger_slug :: "(string \<Rightarrow> string) \<Rightarrow> occurrences \<Rightarrow> string \<Rightarrow> occurrences \<times> string" where
  "slugger_slug slugify occ v =
     (let original = slugify v;
          (occ', result) = slug_loop occ original original
      in (AList.update result 0 occ', result))"

section \<open>Processing one document\<close>

text \<open>
  The functions of the parsing, hashing and rendering libraries, and the answers of the
  external collaborators, are parameters of the model:
  \<^item> \<open>unwrapTitle\<close> is \<^verbatim>\<open>content.replace(/(title:\s*)<([^>]+)>/g, '$1$2')\<close>;
  \<^item> \<open>sha256\<close> is \<^verbatim>\<open>createHash('sha256').update(content).digest('base64')\<close>;
  \<^item> \<open>fromMarkdown\<close> gives the children of the parsed root, or \<open>None\<close> when the
    parser throws;
  \<^item> \<open>unistFilter\<close> is \<^verbatim>\<open>filter(tree, test)\<close> on the children of the root (\<open>None\<close>
    for \<^verbatim>\<open>null\<close>);
  \<^item> \<open>toMarkdown\<close> renders a root with the given children, \<open>toString\<close> flattens a node;
  \<^item> \<open>slugify\<close> is the base function of the slug generator;
  \<^item> \<open>fetchRaw\<close> is the body the content host answers for a file path;
  \<^item> \<open>embeddingApi\<close> is the answer of the embedding collaborator for an input;
  \<^item> \<open>faults k\<close> tells whether the \<open>k\<close>-th request of a run to the content host, the
    store or the embedding collaborator fails (throws, or returns an error).
\<close>

record embedding_response =
  response_status :: nat
  response_embedding :: "real list"
  response_total_tokens :: nat

record env =
  unwrapTitle :: "string \<Rightarrow> string"
  sha256 :: "string \<Rightarrow> string"
  fromMarkdown :: "string \<Rightarrow> node list option"
  unistFilter :: "(node \<Rightarrow> bool) \<Rightarrow> node list \<Rightarrow> node list option"
  toMarkdown :: "node list \<Rightarrow> string"
  toString :: "node \<Rightarrow> string"
  slugify :: "string \<Rightarrow> string"
  fetchRaw :: "string \<Rightarrow> string"
  embeddingApi :: "string \<Rightarrow> embedding_response"
  faults :: "nat \<Rightarrow> bool"

record Section =
  section_content :: string
  section_heading :: "string option"
  section_slug :: "string option"

record ProcessedMdx =
  mdx_checksum :: string
  mdx_meta :: "js_object option"
  mdx_sections :: "Section list"

definition mdx_node_types :: "string list" where
  "mdx_node_types =
     [''mdxjsEsm'', ''mdxJsxFlowElement'', ''mdxJsxTextElement'', ''mdxFlowExpression'', ''mdxTextExpression'']"

definition not_mdx :: "node \<Rightarrow> bool" where
  "not_mdx n \<longleftrightarrow> node_type n \<notin> set mdx_node_types"

text \<open>
  \<^verbatim>\<open>sectionTrees.map((tree) => ...)\<close> with the one \<^verbatim>\<open>slugger\<close> of the call threaded
  through in document order. Reading \<^verbatim>\<open>firstNode.type\<close> of a tree without children
  throws.
\<close>

fun make_sections :: "env \<Rightarrow> occurrences \<Rightarrow> node list list \<Rightarrow> error + Section list" where
  "make_sections E occ [] = Inr []"
| "make_sections E occ ([] # trees) = Inl TypeError"
| "make_sections E occ ((firstNode # nodes) # trees) =
     (let heading = (if node_type firstNode = ''heading'' then Some (toString E firstNode) else None);
          (occ', slug) =
            (case heading of
               None \<Rightarrow> (occ, None)
             | Some h \<Rightarrow>
                 if h \<noteq> [] then (let (occ1, s) = slugger_slug (slugify E) occ h in (occ1, Some s))
                 else (occ, None))
      in case make_sections E occ' trees of
           Inl e \<Rightarrow> Inl e
         | Inr rest \<Rightarrow>
             Inr (\<lparr>section_content = toMarkdown E (firstNode # nodes),
                   section_heading = heading,
                   section_slug = slug\<rparr> # rest))"

definition processMdxForSearch :: "env \<Rightarrow> string \<Rightarrow> error + ProcessedMdx" where
  "processMdxForSearch E content0 =
     (let content = unwrapTitle E content0;
          checksum = sha256 E content
      in case fromMarkdown E content of
           None \<Rightarrow> Inl ParseError
         | Some mdxTree \<Rightarrow>
             (let meta = extractMetaExport mdxTree
              in case unistFilter E not_mdx mdxTree of
                   None \<Rightarrow> Inr \<lparr>mdx_checksum = checksum, mdx_meta = meta, mdx_sections = []\<rparr>
                 | Some mdTree \<Rightarrow>
                     (case make_sections E [] (splitTreeBy mdTree is_heading) of
                        Inl e \<Rightarrow> Inl e
                      | Inr sections \<Rightarrow>
                          Inr \<lparr>mdx_checksum = checksum, mdx_meta = meta, mdx_sections = sections\<rparr>)))"

section \<open>The persistent store\<close>

text \<open>
  The two tables of the store, \<^verbatim>\<open>nods_page\<close> and \<^verbatim>\<open>nods_page_section\<close>, as lists of
  rows with the columns the pipeline reads or writes.
\<close>

record page =
  page_id :: nat
  page_path :: string
  page_checksum :: "string option"
  page_type :: string
  page_source :: string
  page_meta :: "js_object option"
  page_parent_page_id :: "nat option"

record page_section =
  ps_page_id :: nat
  ps_slug :: "string option"
  ps_heading :: "string option"
  ps_content :: string
  ps_token_count :: nat
  ps_embedding :: "real list"

text \<open>
  The requests a run sends to its collaborators, in the order sent, and the lines it
  writes with \<^verbatim>\<open>console.error\<close>.
\<close>

datatype request =
    HttpGet string
  | SelectPage "string option"
  | DeleteSections nat
  | UpsertPage string
  | CreateEmbedding string
  | InsertSection nat
  | UpdateParent nat
  | UpdateChecksum nat

datatype log_line = SectionFailed string string | PageFailed string error

record world =
  pages :: "page list"
  page_sections :: "page_section list"
  requests :: "request list"
  console_error :: "log_line list"

text \<open>
  Sending a request: it is recorded, and it fails when the fault schedule says so. A
  failed store request leaves the tables as they were.
\<close>

definition issue :: "env \<Rightarrow> request \<Rightarrow> world \<Rightarrow> bool \<times> world" where
  "issue E q w = (faults E (length (requests w)), w\<lparr>requests := requests w @ [q]\<rparr>)"

text \<open>
  \<^verbatim>\<open>.from('nods_page').select().filter('path', 'eq', path).limit(1).maybeSingle()\<close>;
  an undefined path matches no row.
\<close>

fun find_page_by_path :: "page list \<Rightarrow> string option \<Rightarrow> page option" where
  "find_page_by_path ps None = None"
| "find_page_by_path ps (Some path) = find (\<lambda>p. page_path p = path) ps"

text \<open>The row joined as \<^verbatim>\<open>parentPage:parent_page_id(id, path)\<close>.\<close>

definition parentPage_of :: "page list \<Rightarrow> page \<Rightarrow> page option" where
  "parentPage_of ps p =
     (case page_parent_page_id p of
        None \<Rightarrow> None
      | Some i \<Rightarrow> find (\<lambda>q. page_id q = i) ps)"

text \<open>The id the store gives to a new page: one that no page carries.\<close>

definition fresh_page_id :: "page list \<Rightarrow> nat" where
  "fresh_page_id ps = Suc (foldr max (map page_id ps) 0)"

text \<open>
  \<^verbatim>\<open>.upsert({checksum: null, path, type, source, meta, parent_page_id}, {onConflict: 'path'})\<close>:
  the row of that path is overwritten in place, or a row with a new id is added. A key
  whose value is \<^verbatim>\<open>undefined\<close> (\<^verbatim>\<open>meta\<close> of a document without metadata, \<^verbatim>\<open>parentPage?.id\<close>
  of a parent page that was not found) is dropped when the request body is serialised:
  the row that is overwritten keeps the value it had in that column, and a new row gets
  null there.
\<close>

definition overwrite_row :: "string \<Rightarrow> string \<Rightarrow> js_object option \<Rightarrow> nat option \<Rightarrow> page \<Rightarrow> page" where
  "overwrite_row type source meta parent p =
     p\<lparr>page_checksum := None, page_type := type, page_source := source,
       page_meta := (case meta of None \<Rightarrow> page_meta p | Some m \<Rightarrow> Some m),
       page_parent_page_id := (case parent of None \<Rightarrow> page_parent_page_id p | Some i \<Rightarrow> Some i)\<rparr>"

definition upsert_rows :: "page list \<Rightarrow> string \<Rightarrow> string \<Rightarrow> string \<Rightarrow> js_object option \<Rightarrow> nat option \<Rightarrow> page list" where
  "upsert_rows ps path type source meta parent =
     (if find_page_by_path ps (Some path) = None
      then ps @ [\<lparr>page_id = fresh_page_id ps, page_path = path, page_checksum = None,
                  page_type = type, page_source = source, page_meta = meta,
                  page_parent_page_id = parent\<rparr>]
      else map (\<lambda>p. if page_path p = path then overwrite_row type source meta parent p else p) ps)"

text \<open>
  \<^verbatim>\<open>.update({ parent_page_id: parentPage?.id }).filter('id', 'eq', id)\<close>: when the parent
  page was not found the value is \<^verbatim>\<open>undefined\<close>, the serialised body is \<^verbatim>\<open>{}\<close>, and no
  column of any row is written. Then \<^verbatim>\<open>.update({ checksum }).filter('id', 'eq', id)\<close>.
\<close>

definition set_parent :: "nat \<Rightarrow> nat option \<Rightarrow> page list \<Rightarrow> page list" where
  "set_parent i parent ps =
     (case parent of
        None \<Rightarrow> ps
      | Some parent_id \<Rightarrow> map (\<lambda>p. if page_id p = i then p\<lparr>page_parent_page_id := Some parent_id\<rparr> else p) ps)"

definition set_checksum :: "nat \<Rightarrow> string \<Rightarrow> page list \<Rightarrow> page list" where
  "set_checksum i checksum ps = map (\<lambda>p. if page_id p = i then p\<lparr>page_checksum := Some checksum\<rparr> else p) ps"

section \<open>Reconciling one page\<close>

text \<open>
  The body of the loop of \<^verbatim>\<open>generateEmbeddings\<close> in the pipeline script, the variant
  with the parent links, cut into its steps. Each step takes the world and returns it
  with the value or the error of the step; an error ends the body, as a \<^verbatim>\<open>throw\<close> does.
  \<^verbatim>\<open>shouldRefresh\<close> is the constant \<^verbatim>\<open>false\<close> of the source, so the branches that delete
  all rows before a run are never taken and are left out.
\<close>

definition shouldRefresh :: bool where
  "shouldRefresh = False"

text \<open>\<^verbatim>\<open>embeddingSource.load()\<close>: fetch the raw text, then segment it.\<close>

definition load :: "env \<Rightarrow> EmbeddingSource \<Rightarrow> world \<Rightarrow> (error + ProcessedMdx) \<times> world" where
  "load E src w =
     (let (failed, w1) = issue E (HttpGet (src_filePath src)) w
      in if failed then (Inl HttpError, w1)
         else (processMdxForSearch E (fetchRaw E (src_filePath src)), w1))"

text \<open>The lookup of a page by path; \<^verbatim>\<open>if (error) throw error\<close> follows every store request.\<close>

definition select_page :: "env \<Rightarrow> string option \<Rightarrow> world \<Rightarrow> (error + page option) \<times> world" where
  "select_page E path w =
     (let (failed, w1) = issue E (SelectPage path) w
      in if failed then (Inl StoreError, w1)
         else (Inr (find_page_by_path (pages w) path), w1))"

text \<open>The branch "parent page changed" of an unchanged page.\<close>

definition update_parent :: "env \<Rightarrow> page \<Rightarrow> string option \<Rightarrow> world \<Rightarrow> error option \<times> world" where
  "update_parent E existingPage parentPath w =
     (case select_page E parentPath w of
        (Inl e, w1) \<Rightarrow> (Some e, w1)
      | (Inr parentPage, w1) \<Rightarrow>
          (let (failed, w2) = issue E (UpdateParent (page_id existingPage)) w1
           in if failed then (Some StoreError, w2)
              else (None, w2\<lparr>pages := set_parent (page_id existingPage) (map_option page_id parentPage) (pages w2)\<rparr>)))"

text \<open>
  \<^verbatim>\<open>if (existingPage) { ... .from('nods_page_section').delete().filter('page_id', 'eq', existingPage.id) }\<close>
\<close>

definition delete_page_sections :: "env \<Rightarrow> page option \<Rightarrow> world \<Rightarrow> error option \<times> world" where
  "delete_page_sections E existingPage w =
     (case existingPage of
        None \<Rightarrow> (None, w)
      | Some p \<Rightarrow>
          (let (failed, w1) = issue E (DeleteSections (page_id p)) w
           in if failed then (Some StoreError, w1)
              else (None, w1\<lparr>page_sections := filter (\<lambda>s. ps_page_id s \<noteq> page_id p) (page_sections w1)\<rparr>)))"

text \<open>The upsert of the page with a null checksum; \<^verbatim>\<open>.select().limit(1).single()\<close> returns the row.\<close>

definition upsert_page :: "env \<Rightarrow> EmbeddingSource \<Rightarrow> js_object option \<Rightarrow> page option \<Rightarrow> world \<Rightarrow> (error + page) \<times> world" where
  "upsert_page E src meta parentPage w =
     (let (failed, w1) = issue E (UpsertPage (src_path src)) w
      in if failed then (Inl StoreError, w1)
         else (let rows = upsert_rows (pages w1) (src_path src) ''github'' (src_source src) meta
                            (map_option page_id parentPage)
               in case find_page_by_path rows (Some (src_path src)) of
                    None \<Rightarrow> (Inl StoreError, w1)
                  | Some p \<Rightarrow> (Inr p, w1\<lparr>pages := rows\<rparr>)))"

text \<open>\<^verbatim>\<open>content.replace(/\n/g, ' ')\<close>\<close>

definition embedding_input :: "string \<Rightarrow> string" where
  "embedding_input content = map (\<lambda>c. if c = CHR 0x0A then CHR '' '' else c) content"

text \<open>The row inserted for a section, with the embedding and the token count of the response.\<close>

definition section_row :: "env \<Rightarrow> nat \<Rightarrow> Section \<Rightarrow> page_section" where
  "section_row E pid s =
     \<lparr>ps_page_id = pid,
      ps_slug = section_slug s,
      ps_heading = section_heading s,
      ps_content = section_content s,
      ps_token_count = response_total_tokens (embeddingApi E (embedding_input (section_content s))),
      ps_embedding = response_embedding (embeddingApi E (embedding_input (section_content s)))\<rparr>"

text \<open>
  One pass of the loop over the sections: the embedding request, then the insertion of
  the row; the inner \<^verbatim>\<open>catch\<close> writes a line and throws the error again.
\<close>

definition embed_section :: "env \<Rightarrow> string \<Rightarrow> nat \<Rightarrow> Section \<Rightarrow> world \<Rightarrow> error option \<times> world" where
  "embed_section E path pid s w =
     (let input = embedding_input (section_content s);
          failure = (\<lambda>e w'. (Some e, w'\<lparr>console_error := console_error w' @ [SectionFailed path (take 40 input)]\<rparr>));
          (failed, w1) = issue E (CreateEmbedding input) w
      in if failed \<or> response_status (embeddingApi E input) \<noteq> 200 then failure EmbeddingError w1
         else (let (failed2, w2) = issue E (InsertSection pid) w1
               in if failed2 then failure StoreError w2
                  else (None, w2\<lparr>page_sections := page_sections w2 @ [section_row E pid s]\<rparr>)))"

fun embed_sections :: "env \<Rightarrow> string \<Rightarrow> nat \<Rightarrow> Section list \<Rightarrow> world \<Rightarrow> error option \<times> world" where
  "embed_sections E path pid [] w = (None, w)"
| "embed_sections E path pid (s # sections) w =
     (case embed_section E path pid s w of
        (Some e, w1) \<Rightarrow> (Some e, w1)
      | (None, w1) \<Rightarrow> embed_sections E path pid sections w1)"

text \<open>"Set page checksum so that we know this page was stored successfully".\<close>

definition update_checksum :: "env \<Rightarrow> nat \<Rightarrow> string \<Rightarrow> world \<Rightarrow> error option \<times> world" where
  "update_checksum E pid checksum w =
     (let (failed, w1) = issue E (UpdateChecksum pid) w
      in if failed then (Some StoreError, w1)
         else (None, w1\<lparr>pages := set_checksum pid checksum (pages w1)\<rparr>))"

text \<open>The path of a new or changed page.\<close>

definition regenerate :: "env \<Rightarrow> EmbeddingSource \<Rightarrow> ProcessedMdx \<Rightarrow> page option \<Rightarrow> world \<Rightarrow> error option \<times> world" where
  "regenerate E src doc existingPage w =
     (case delete_page_sections E existingPage w of
        (Some e, w1) \<Rightarrow> (Some e, w1)
      | (None, w1) \<Rightarrow>
          (case select_page E (src_parentPath src) w1 of
             (Inl e, w2) \<Rightarrow> (Some e, w2)
           | (Inr parentPage, w2) \<Rightarrow>
               (case upsert_page E src (mdx_meta doc) parentPage w2 of
                  (Inl e, w3) \<Rightarrow> (Some e, w3)
                | (Inr p, w3) \<Rightarrow>
                    (case embed_sections E (src_path src) (page_id p) (mdx_sections doc) w3 of
                       (Some e, w4) \<Rightarrow> (Some e, w4)
                     | (None, w4) \<Rightarrow> update_checksum E (page_id p) (mdx_checksum doc) w4))))"

text \<open>
  The body of the \<^verbatim>\<open>try\<close> block of \<^verbatim>\<open>generateEmbeddings\<close> for one source: the error
  thrown, if any, and the world it leaves.
\<close>

definition reconcile :: "env \<Rightarrow> EmbeddingSource \<Rightarrow> world \<Rightarrow> error option \<times> world" where
  "reconcile E src w =
     (case load E src w of
        (Inl e, w1) \<Rightarrow> (Some e, w1)
      | (Inr doc, w1) \<Rightarrow>
          (case select_page E (Some (src_path src)) w1 of
             (Inl e, w2) \<Rightarrow> (Some e, w2)
           | (Inr existingPage, w2) \<Rightarrow>
               (case existingPage of
                  None \<Rightarrow> regenerate E src doc existingPage w2
                | Some ex \<Rightarrow>
                    if \<not> shouldRefresh \<and> page_checksum ex = Some (mdx_checksum doc)
                    then (if map_option page_path (parentPage_of (pages w2) ex) \<noteq> src_parentPath src
                          then update_parent E ex (src_parentPath src) w2
                          else (None, w2))
                    else regenerate E src doc existingPage w2)))"

section \<open>The pipeline driver\<close>

text \<open>One turn of the loop: the \<^verbatim>\<open>catch\<close> writes the error and the loop goes on.\<close>

definition process_source :: "env \<Rightarrow> EmbeddingSource \<Rightarrow> world \<Rightarrow> world" where
  "process_source E src w =
     (case reconcile E src w of
        (None, w1) \<Rightarrow> w1
      | (Some e, w1) \<Rightarrow> w1\<lparr>console_error := console_error w1 @ [PageFailed (src_path src) e]\<rparr>)"

fun process_sources :: "env \<Rightarrow> EmbeddingSource list \<Rightarrow> world \<Rightarrow> world" where
  "process_sources E [] w = w"
| "process_sources E (src # sources) w = process_sources E sources (process_source E src w)"

text \<open>
  \<^verbatim>\<open>generateEmbeddings\<close>: discovery from \<^verbatim>\<open>'docs'\<close>, one source per discovered
  document, then the loop. A failed discovery rejects the whole run.
\<close>

definition embeddingSources :: "WalkEntry list \<Rightarrow> EmbeddingSource list" where
  "embeddingSources entries =
     map (\<lambda>entry. GithubEmbeddingSource ''guide'' (entry_path entry) None)
       (filter (\<lambda>entry. hasMdxFileExtension (entry_path entry)) entries)"


text \<open>The heading recorded for a section tree: the flattened text of a leading heading.\<close>

definition heading_of :: "env \<Rightarrow> node list \<Rightarrow> string option" where
  "heading_of E tree =
     (case tree of
        [] \<Rightarrow> None
      | firstNode # nodes \<Rightarrow> if is_heading firstNode then Some (toString E firstNode) else None)"

section \<open>A concrete environment for the examples\<close>

fun node_texts :: "node \<Rightarrow> string" where
  "node_texts (Node t d cs txt) = txt @ concat (map node_texts cs)"

definition example_heading :: "string \<Rightarrow> node" where
  "example_heading s = Node ''heading'' None [Node ''text'' None [] s] []"

definition example_paragraph :: "string \<Rightarrow> node" where
  "example_paragraph s = Node ''paragraph'' None [Node ''text'' None [] s] []"

definition example_meta_export :: "property list \<Rightarrow> node" where
  "example_meta_export properties =
     Node ''mdxjsEsm''
       (Some [ExportNamedDeclaration (Some (VariableDeclaration
          [VariableDeclarator (IdentifierPattern ''meta'') (Some (ObjectExpression properties))]))])
       [] []"

text \<open>The parsed trees of the example documents, by raw text; any other text fails to parse.\<close>

definition example_documents :: "(string \<times> node list) list" where
  "example_documents =
     [(''Intro Usage Usage'',
         [example_heading ''Intro'', example_paragraph ''Hello'',
          example_heading ''Usage'', example_paragraph ''Do X'',
          example_heading ''Usage'', example_paragraph ''Do Y'']),
      (''Plain'', [example_paragraph ''Just text'']),
      (''Changed'', [example_paragraph ''New text'']),
      ([], [])]"

text \<open>The raw text the content host answers for the example files.\<close>

definition example_files :: "(string \<times> string) list" where
  "example_files =
     [(''docs/a.mdx'', ''Intro Usage Usage''),
      (''docs/01-app/intro.mdx'', ''Plain''),
      (''docs/b.mdx'', ''Broken''),
      (''docs/c.md'', ''Plain'')]"

definition example_lower :: "char \<Rightarrow> char" where
  "example_lower c =
     (if c = CHR '' '' then CHR ''-''
      else case map_of (zip ''ABCDEFGHIJKLMNOPQRSTUVWXYZ'' ''abcdefghijklmnopqrstuvwxyz'') c of
             Some l \<Rightarrow> l
           | None \<Rightarrow> c)"

definition example_env :: env where
  "example_env =
     \<lparr>unwrapTitle = (\<lambda>s. s),
      sha256 = (\<lambda>s. ''sha256:'' @ s),
      fromMarkdown = map_of example_documents,
      unistFilter = (\<lambda>test cs. let kept = filter test cs in if cs \<noteq> [] \<and> kept = [] then None else Some kept),
      toMarkdown = (\<lambda>cs. concat (map node_texts cs)),
      toString = node_texts,
      slugify = map example_lower,
      fetchRaw = (\<lambda>p. case map_of example_files p of Some c \<Rightarrow> c | None \<Rightarrow> []),
      embeddingApi = (\<lambda>input. \<lparr>response_status = 200, response_embedding = [real (length input)],
                                 response_total_tokens = length input\<rparr>),
      faults = (\<lambda>k. False)\<rparr>"

definition empty_world :: world where
  "empty_world = \<lparr>pages = [], page_sections = [], requests = [], console_error = []\<rparr>"

text \<open>The source of the example file \<^verbatim>\<open>docs/c.md\<close>, and the store after one and two reconciliations of it.\<close>

definition example_c :: EmbeddingSource where
  "example_c = GithubEmbeddingSource ''guide'' ''docs/c.md'' None"

definition example_a :: EmbeddingSource where
  "example_a = GithubEmbeddingSource ''guide'' ''docs/a.mdx'' None"


definition example_intro :: EmbeddingSource where
  "example_intro = GithubEmbeddingSource ''guide'' ''docs/01-app/intro.mdx'' (Some ''docs/01-app'')"

text \<open>The store after the documents a and c, and the source of c placed under a.\<close>

definition example_two_pages :: world where
  "example_two_pages = process_sources example_env [example_a, example_c] empty_world"

definition example_c_under_a :: EmbeddingSource where
  "example_c_under_a = GithubEmbeddingSource ''guide'' ''docs/c.md'' (Some ''docs/a.mdx'')"

text \<open>
  The store once c has been placed under a, and after one and two further reconciliations
  of c as the driver builds its source, without parent path.
\<close>

definition example_linked :: world where
  "example_linked = snd (reconcile example_env example_c_under_a example_two_pages)"

definition example_linked_once :: world where
  "example_linked_once = snd (reconcile example_env example_c example_linked)"

definition example_linked_twice :: world where
  "example_linked_twice = snd (reconcile example_env example_c example_linked_once)"

text \<open>A run in which the seventh request, the embedding of the second section of a, fails.\<close>

definition example_interrupted_env :: env where
  "example_interrupted_env = example_env\<lparr>faults := (\<lambda>k. k = 6)\<rparr>"

definition example_interrupted_run :: world where
  "example_interrupted_run = snd (reconcile example_interrupted_env example_a empty_world)"


definition example_first_run :: world where
  "example_first_run = snd (reconcile example_env example_c empty_world)"

definition example_second_run :: world where
  "example_second_run = snd (reconcile example_env example_c example_first_run)"

text \<open>
  The content of c has changed, and the eleventh request overall, the lookup of the
  parent page during the second reconciliation of c, fails.
\<close>

definition example_changed_env :: env where
  "example_changed_env = example_env\<lparr>fetchRaw := (\<lambda>p. ''Changed''), faults := (\<lambda>k. k = 10)\<rparr>"

definition example_failed_regeneration :: world where
  "example_failed_regeneration = process_source example_changed_env example_c example_first_run"

text \<open>The same run when the request after it, the upsert of the page, is the one that fails.\<close>

definition example_failed_upsert :: world where
  "example_failed_upsert =
     process_source (example_changed_env\<lparr>faults := (\<lambda>k. k = 11)\<rparr>) example_c example_first_run"

text \<open>The next run, by which the content of c is the old one again.\<close>

definition example_reverted_run :: world where
  "example_reverted_run = process_source example_env example_c example_failed_regeneration"

text \<open>The collation used in the examples: by character code, position by position.\<close>

fun example_le :: "string \<Rightarrow> string \<Rightarrow> bool" where
  "example_le [] b = True"
| "example_le (x # a) [] = False"
| "example_le (x # a) (y # b) = ((of_char x :: nat) < of_char y \<or> (x = y \<and> example_le a b))"


text \<open>Requests by kind: to the embedding collaborator, and writes to the store.\<close>

fun is_embedding_request :: "request \<Rightarrow> bool" where
  "is_embedding_request (CreateEmbedding input) = True"
| "is_embedding_request _ = False"

fun is_store_mutation :: "request \<Rightarrow> bool" where
  "is_store_mutation (DeleteSections i) = True"
| "is_store_mutation (UpsertPage path) = True"
| "is_store_mutation (InsertSection i) = True"
| "is_store_mutation (UpdateParent i) = True"
| "is_store_mutation (UpdateChecksum i) = True"
| "is_store_mutation _ = False"

text \<open>The row a successful upsert of a source writes, given the parent page it resolved.\<close>

definition upserted_rows :: "EmbeddingSource \<Rightarrow> ProcessedMdx \<Rightarrow> page list \<Rightarrow> page list" where
  "upserted_rows src doc ps =
     upsert_rows ps (src_path src) ''github'' (src_source src) (mdx_meta doc)
       (map_option page_id (find_page_by_path ps (src_parentPath src)))"

text \<open>The world once the document has been fetched and its page looked up.\<close>

definition after_lookup :: "EmbeddingSource \<Rightarrow> world \<Rightarrow> world" where
  "after_lookup src w =
     w\<lparr>requests := requests w @ [HttpGet (src_filePath src), SelectPage (Some (src_path src))]\<rparr>"

text \<open>The checksum of the document a source points to, as \<^verbatim>\<open>processMdxForSearch\<close> computes it.\<close>

definition source_checksum :: "env \<Rightarrow> EmbeddingSource \<Rightarrow> string" where
  "source_checksum E src = sha256 E (unwrapTitle E (fetchRaw E (src_filePath src)))"

text \<open>
  A source is up to date in a store when the page of its path carries the checksum of
  its document and the path of the page's parent is the parent path of the source.
\<close>

definition up_to_date :: "env \<Rightarrow> world \<Rightarrow> EmbeddingSource \<Rightarrow> bool" where
  "up_to_date E w src =
     (case find_page_by_path (pages w) (Some (src_path src)) of
        None \<Rightarrow> False
      | Some ex \<Rightarrow>
          page_checksum ex = Some (source_checksum E src) \<and>
          map_option page_path (parentPage_of (pages w) ex) = src_parentPath src)"

text \<open>The requests a world has received since an earlier one.\<close>

definition requests_since :: "world \<Rightarrow> world \<Rightarrow> request list" where
  "requests_since w w' = drop (length (requests w)) (requests w')"

definition logged_since :: "world \<Rightarrow> world \<Rightarrow> log_line list" where
  "logged_since w w' = drop (length (console_error w)) (console_error w')"

text \<open>The two requests that embed and store one section of a page.\<close>

definition section_requests :: "nat \<Rightarrow> Section \<Rightarrow> request list" where
  "section_requests pid s = [CreateEmbedding (embedding_input (section_content s)), InsertSection pid]"

text \<open>A page record without its parent link.\<close>

definition without_parent_link :: "page \<Rightarrow> page" where
  "without_parent_link p = p\<lparr>page_parent_page_id := None\<rparr>"

text \<open>The two replacements of the constructor of \<^verbatim>\<open>GithubEmbeddingSource\<close>, in a row.\<close>

definition normalized :: "string \<Rightarrow> string" where
  "normalized filePath = replace_mdx_extension (replace_docs_prefix filePath)"

text \<open>The entries of the results of \<^verbatim>\<open>Promise.all\<close>, concatenated.\<close>

definition flatten_results :: "(error + 'a list) list \<Rightarrow> error + 'a list" where
  "flatten_results rs = (case promise_all rs of Inl e \<Rightarrow> Inl e | Inr xss \<Rightarrow> Inr (concat xss))"

text \<open>
  The slugs a document defines, and the slugs that a fresh generator gives to a sequence
  of headings (a section without heading, or with an empty one, gets none).
\<close>

definition defined_slugs :: "Section list \<Rightarrow> string list" where
  "defined_slugs sections = List.map_filter section_slug sections"

fun slugs_of_headings :: "(string \<Rightarrow> string) \<Rightarrow> occurrences \<Rightarrow> string option list \<Rightarrow> string option list" where
  "slugs_of_headings f occ [] = []"
| "slugs_of_headings f occ (None # hs) = None # slugs_of_headings f occ hs"
| "slugs_of_headings f occ (Some h # hs) =
     (if h \<noteq> [] then (let (occ1, s) = slugger_slug f occ h in Some s # slugs_of_headings f occ1 hs)
      else None # slugs_of_headings f occ hs)"

section \<open>Properties of the segmenter\<close>

lemma getObjectFromExpression_fold:
  "map_of (foldl getObjectFromExpression_step acc ps) key =
     (case last_property key ps of
        None \<Rightarrow> map_of acc key
      | Some v \<Rightarrow> Some (property_value v))"
proof (induction ps arbitrary: acc)
  case Nil
  then show ?case by simp
next
  case (Cons p ps)
  show ?case
  proof (cases p)
    case SpreadElement
    then show ?thesis using Cons.IH [of acc] by (simp split: option.splits)
  next
    case (Property k v)
    then show ?thesis
      using Cons.IH [of "getObjectFromExpression_step acc p"]
      by (auto simp: update_conv' split: option.splits)
  qed
qed

lemma splitTreeBy_snoc:
  "splitTreeBy (xs @ [x]) p = splitTreeBy_step p (splitTreeBy xs p) x"
  by (simp add: splitTreeBy_def)

lemma splitTreeBy_concat: "concat (splitTreeBy xs p) = xs"
proof (induction xs rule: rev_induct)
  case Nil
  then show ?case by (simp add: splitTreeBy_def)
next
  case (snoc x xs)
  let ?ts = "splitTreeBy xs p"
  show ?case
  proof (cases "?ts = [] \<or> p x")
    case True
    then show ?thesis using snoc by (simp add: splitTreeBy_snoc splitTreeBy_step_def)
  next
    case False
    then have "concat (butlast ?ts @ [last ?ts]) = xs" using snoc by simp
    then show ?thesis using False by (simp add: splitTreeBy_snoc splitTreeBy_step_def)
  qed
qed

lemma splitTreeBy_Nil: "splitTreeBy [] p = []"
  by (simp add: splitTreeBy_def)

lemma splitTreeBy_shape:
  "(\<forall>t \<in> set (splitTreeBy xs p). t \<noteq> [] \<and> (\<forall>n \<in> set (tl t). \<not> p n)) \<and>
   (\<forall>t \<in> set (tl (splitTreeBy xs p)). p (hd t))"
proof (induction xs rule: rev_induct)
  case Nil
  then show ?case by (simp add: splitTreeBy_Nil)
next
  case (snoc x xs)
  let ?ts = "splitTreeBy xs p"
  show ?case
  proof (cases "?ts = [] \<or> p x")
    case True
    then show ?thesis using snoc
      by (cases "?ts") (auto simp: splitTreeBy_snoc splitTreeBy_step_def)
  next
    case False
    then obtain bs l where ts: "?ts = bs @ [l]"
      by (metis append_butlast_last_id)
    have step: "splitTreeBy (xs @ [x]) p = bs @ [l @ [x]]"
      using False ts by (simp add: splitTreeBy_snoc splitTreeBy_step_def)
    have l: "l \<noteq> []" "\<forall>n \<in> set (tl l). \<not> p n" using snoc ts by auto
    have bs: "\<forall>t \<in> set bs. t \<noteq> [] \<and> (\<forall>n \<in> set (tl t). \<not> p n)" using snoc ts by auto
    have heads: "\<forall>t \<in> set (tl (bs @ [l])). p (hd t)" using snoc ts by simp
    have "\<forall>t \<in> set (tl (bs @ [l @ [x]])). p (hd t)"
      using heads l by (cases bs) auto
    moreover have "\<forall>t \<in> set (bs @ [l @ [x]]). t \<noteq> [] \<and> (\<forall>n \<in> set (tl t). \<not> p n)"
      using bs l False by auto
    ultimately show ?thesis unfolding step by blast
  qed
qed

lemma splitTreeBy_no_split:
  "xs \<noteq> [] \<Longrightarrow> \<forall>n \<in> set xs. \<not> p n \<Longrightarrow> splitTreeBy xs p = [xs]"
proof (induction xs rule: rev_induct)
  case Nil
  then show ?case by simp
next
  case (snoc x xs)
  show ?case
  proof (cases "xs = []")
    case True
    then show ?thesis by (simp add: splitTreeBy_def splitTreeBy_step_def)
  next
    case False
    then have "splitTreeBy xs p = [xs]" using snoc by simp
    then show ?thesis using snoc.prems by (simp add: splitTreeBy_snoc splitTreeBy_step_def)
  qed
qed

lemma heading_of_Cons:
  "heading_of E (n # ns) = (if node_type n = ''heading'' then Some (toString E n) else None)"
  by (simp add: heading_of_def is_heading_def)

lemma make_sections_ok:
  "\<forall>t \<in> set trees. t \<noteq> [] \<Longrightarrow>
   \<exists>sections. make_sections E occ trees = Inr sections \<and>
     map section_content sections = map (toMarkdown E) trees \<and>
     map section_heading sections = map (heading_of E) trees"
proof (induction trees arbitrary: occ)
  case Nil
  then show ?case by simp
next
  case (Cons t trees)
  then obtain n ns where t: "t = n # ns" by (cases t) auto
  define occ' where "occ' = (if is_heading n \<and> toString E n \<noteq> [] then fst (slugger_slug (slugify E) occ (toString E n)) else occ)"
  from Cons obtain sections where s: "make_sections E occ' trees = Inr sections"
    "map section_content sections = map (toMarkdown E) trees"
    "map section_heading sections = map (heading_of E) trees"
    by (metis list.set_intros(2))
  show ?case
    using s unfolding t occ'_def
    by (auto simp: is_heading_def heading_of_Cons Let_def split: prod.splits)
qed

lemma is_meta_export_exports:
  assumes "is_meta_export m"
  shows "exports_meta m \<and>
    (\<forall>properties. meta_declarator m =
        Some (VariableDeclarator (IdentifierPattern ''meta'') (Some (ObjectExpression properties))) \<longrightarrow>
      exports_meta_object m)"
proof -
  from assms obtain init where t: "node_type m = ''mdxjsEsm''"
    and d: "meta_declarator m = Some (VariableDeclarator (IdentifierPattern ''meta'') init)"
    by (auto simp: is_meta_export_def split: option.splits declarator.splits pattern.splits)
  from d obtain t' ds rest cs tx where
    "m = Node t' (Some (ExportNamedDeclaration (Some (VariableDeclaration
           (VariableDeclarator (IdentifierPattern ''meta'') init # ds))) # rest)) cs tx"
    by (auto elim!: meta_declarator.elims)
  then show ?thesis using t d
    by (auto simp: exports_meta_def exports_meta_object_def esm_statements_def)
qed

lemma find_first:
  "\<forall>m \<in> set before. \<not> P m \<Longrightarrow> P n \<Longrightarrow> find P (before @ n # after) = Some n"
  by (induction before) auto

lemma extractMetaExport_None:
  assumes "\<forall>m \<in> set children. \<not> exports_meta_object m"
  shows "extractMetaExport children = None"
proof (cases "find is_meta_export children")
  case None
  then show ?thesis by (simp add: extractMetaExport_def)
next
  case (Some n)
  then have n: "n \<in> set children" "is_meta_export n" by (auto simp: find_Some_iff)
  then have "\<not> exports_meta_object n" using assms by blast
  then have "\<forall>properties. meta_declarator n \<noteq>
      Some (VariableDeclarator (IdentifierPattern ''meta'') (Some (ObjectExpression properties)))"
    using is_meta_export_exports [OF n(2)] by blast
  then show ?thesis using Some
    by (auto simp: extractMetaExport_def
        split: option.splits declarator.splits pattern.splits expression.splits)
qed

text \<open>
  C5 (as amended). When the export of \<^verbatim>\<open>meta\<close> opens its ESM block (no earlier block
  exports \<^verbatim>\<open>meta\<close>, the export is the first statement of its block and \<^verbatim>\<open>meta\<close> is its
  first declarator) and is initialised with an object expression, the metadata is an
  object in which every identifier key written in that expression is a key; it holds
  the literal of the last property with that key when this literal is truthy, and
  undefined when the literal is falsy (\<^verbatim>\<open>false\<close>, \<^verbatim>\<open>0\<close>, the empty string, \<^verbatim>\<open>null\<close>) or the
  value is not a literal. Keys that are not written in it as identifiers are absent. A
  document in which no statement exports \<^verbatim>\<open>meta\<close> with an object expression has undefined
  metadata.
\<close>

theorem extractMetaExport_truthy_literals:
  "((\<forall>m \<in> set children. \<not> exports_meta_object m) \<longrightarrow> extractMetaExport children = None) \<and>
   (children = before @
      Node ''mdxjsEsm''
        (Some (ExportNamedDeclaration (Some (VariableDeclaration
           (VariableDeclarator (IdentifierPattern ''meta'') (Some (ObjectExpression properties)) # ds))) # rest))
        cs tx # after \<and>
    (\<forall>m \<in> set before. \<not> exports_meta m) \<longrightarrow>
      (\<exists>object. extractMetaExport children = Some object \<and>
         (\<forall>key l. last_property key properties = Some (Literal l) \<and> truthy l \<longrightarrow>
            map_of object key = Some (Some l)) \<and>
         (\<forall>key l. last_property key properties = Some (Literal l) \<and> \<not> truthy l \<longrightarrow>
            map_of object key = Some None) \<and>
         (\<forall>key v. last_property key properties = Some v \<and> (\<forall>l. v \<noteq> Literal l) \<longrightarrow>
            map_of object key = Some None) \<and>
         (\<forall>key. last_property key properties = None \<longrightarrow> map_of object key = None)))"
proof (rule conjI; rule impI)
  assume "\<forall>m \<in> set children. \<not> exports_meta_object m"
  then show "extractMetaExport children = None" by (rule extractMetaExport_None)
next
  let ?n = "Node ''mdxjsEsm''
        (Some (ExportNamedDeclaration (Some (VariableDeclaration
           (VariableDeclarator (IdentifierPattern ''meta'') (Some (ObjectExpression properties)) # ds))) # rest))
        cs tx"
  assume a: "children = before @ ?n # after \<and> (\<forall>m \<in> set before. \<not> exports_meta m)"
  then have "\<forall>m \<in> set before. \<not> is_meta_export m"
    using is_meta_export_exports by blast
  moreover have "is_meta_export ?n" by (simp add: is_meta_export_def)
  ultimately have found: "find is_meta_export children = Some ?n"
    using a find_first [of before is_meta_export ?n after] by simp
  have look: "map_of (getObjectFromExpression properties) key =
      (case last_property key properties of None \<Rightarrow> None | Some v \<Rightarrow> Some (property_value v))" for key
    unfolding getObjectFromExpression_def by (simp add: getObjectFromExpression_fold cong: option.case_cong)
  have "extractMetaExport children = Some (getObjectFromExpression properties)"
    using found by (simp add: extractMetaExport_def)
  moreover have "\<forall>key l. last_property key properties = Some (Literal l) \<and> truthy l \<longrightarrow>
      map_of (getObjectFromExpression properties) key = Some (Some l)"
    by (simp add: look)
  moreover have "\<forall>key l. last_property key properties = Some (Literal l) \<and> \<not> truthy l \<longrightarrow>
      map_of (getObjectFromExpression properties) key = Some None"
    by (simp add: look)
  moreover have "\<forall>key v. last_property key properties = Some v \<and> (\<forall>l. v \<noteq> Literal l) \<longrightarrow>
      map_of (getObjectFromExpression properties) key = Some None"
  proof (intro allI impI)
    fix key v
    assume "last_property key properties = Some v \<and> (\<forall>l. v \<noteq> Literal l)"
    then show "map_of (getObjectFromExpression properties) key = Some None"
      by (cases v) (simp_all add: look)
  qed
  moreover have "\<forall>key. last_property key properties = None \<longrightarrow>
      map_of (getObjectFromExpression properties) key = None"
    by (simp add: look)
  ultimately show "\<exists>object. extractMetaExport children = Some object \<and>
         (\<forall>key l. last_property key properties = Some (Literal l) \<and> truthy l \<longrightarrow>
            map_of object key = Some (Some l)) \<and>
         (\<forall>key l. last_property key properties = Some (Literal l) \<and> \<not> truthy l \<longrightarrow>
            map_of object key = Some None) \<and>
         (\<forall>key v. last_property key properties = Some v \<and> (\<forall>l. v \<noteq> Literal l) \<longrightarrow>
            map_of object key = Some None) \<and>
         (\<forall>key. last_property key properties = None \<longrightarrow> map_of object key = None)"
    by blast
qed

theorem extractMetaExport_truthy_literals_witness:
  "extractMetaExport [example_paragraph ''Hello''] = None \<and>
   extractMetaExport
     [Node ''mdxjsEsm''
        (Some [ExportNamedDeclaration (Some (VariableDeclaration
           [VariableDeclarator (IdentifierPattern ''meta'') (Some (Identifier ''shared''))]))])
        [] []] = None \<and>
   (\<exists>object.
      extractMetaExport
        [example_paragraph ''Hello'',
         example_meta_export
           [Property (Identifier ''title'') (Literal (LString ''Intro'')),
            Property (Identifier ''draft'') (Literal (LBoolean False)),
            Property (Identifier ''tags'') (Identifier ''computed''),
            Property (Literal (LString ''quoted'')) (Literal (LString ''x''))]] = Some object \<and>
      map_of object ''title'' = Some (Some (LString ''Intro'')) \<and>
      map_of object ''draft'' = Some None \<and>
      map_of object ''tags'' = Some None \<and>
      map_of object ''quoted'' = None \<and>
      map_of object ''author'' = None)"
proof -
  let ?ps = "[Property (Identifier ''title'') (Literal (LString ''Intro'')),
              Property (Identifier ''draft'') (Literal (LBoolean False)),
              Property (Identifier ''tags'') (Identifier ''computed''),
              Property (Literal (LString ''quoted'')) (Literal (LString ''x''))]"
  let ?n = "Node ''mdxjsEsm''
        (Some (ExportNamedDeclaration (Some (VariableDeclaration
           (VariableDeclarator (IdentifierPattern ''meta'') (Some (ObjectExpression ?ps)) # []))) # []))
        [] []"
  let ?shared = "Node ''mdxjsEsm''
        (Some [ExportNamedDeclaration (Some (VariableDeclaration
           [VariableDeclarator (IdentifierPattern ''meta'') (Some (Identifier ''shared''))]))])
        [] []"
  let ?cs = "[example_paragraph ''Hello'', example_meta_export ?ps]"
  have none: "\<forall>m \<in> set [example_paragraph ''Hello'']. \<not> exports_meta_object m"
    by (simp add: exports_meta_object_def esm_statements_def example_paragraph_def)
  have first: "extractMetaExport [example_paragraph ''Hello''] = None"
    using extractMetaExport_truthy_literals [of "[example_paragraph ''Hello'']"] none by blast
  have other: "\<forall>m \<in> set [?shared]. \<not> exports_meta_object m"
    by (simp add: exports_meta_object_def esm_statements_def)
  have second: "extractMetaExport [?shared] = None"
    using extractMetaExport_truthy_literals [of "[?shared]"] other by blast
  have h: "?cs = [example_paragraph ''Hello''] @ ?n # [] \<and>
      (\<forall>m \<in> set [example_paragraph ''Hello'']. \<not> exports_meta m)"
    by (simp add: example_meta_export_def exports_meta_def esm_statements_def example_paragraph_def)
  from extractMetaExport_truthy_literals
    [where children = ?cs and before = "[example_paragraph ''Hello'']" and properties = ?ps
       and ds = "[]" and rest = "[]" and cs = "[]" and tx = "[]" and after = "[]"] h
  obtain object where o: "extractMetaExport ?cs = Some object"
    and t: "\<forall>key l. last_property key ?ps = Some (Literal l) \<and> truthy l \<longrightarrow> map_of object key = Some (Some l)"
    and f: "\<forall>key l. last_property key ?ps = Some (Literal l) \<and> \<not> truthy l \<longrightarrow> map_of object key = Some None"
    and v: "\<forall>key v. last_property key ?ps = Some v \<and> (\<forall>l. v \<noteq> Literal l) \<longrightarrow> map_of object key = Some None"
    and a: "\<forall>key. last_property key ?ps = None \<longrightarrow> map_of object key = None"
    by blast
  have "map_of object ''title'' = Some (Some (LString ''Intro''))"
    using t [rule_format, of "''title''" "LString ''Intro''"] by simp
  moreover have "map_of object ''draft'' = Some None"
    using f [rule_format, of "''draft''" "LBoolean False"] by simp
  moreover have "map_of object ''tags'' = Some None"
    using v [rule_format, of "''tags''" "Identifier ''computed''"] by simp
  moreover have "map_of object ''quoted'' = None"
    using a [rule_format, of "''quoted''"] by simp
  moreover have "map_of object ''author'' = None"
    using a [rule_format, of "''author''"] by simp
  ultimately show ?thesis using first second o by blast
qed

text \<open>
  C5 as stated fails in four ways. A falsy literal is not retained:
  \<^verbatim>\<open>export const meta = { draft: false, order: 0 }\<close> yields an object whose keys \<^verbatim>\<open>draft\<close>
  and \<^verbatim>\<open>order\<close> are undefined. A pair whose key is written as a string is not part of
  the mapping: \<^verbatim>\<open>export const meta = { 'title': 'Intro' }\<close> yields the empty object. An
  export that does not open its ESM block is not found: for an import directly above
  \<^verbatim>\<open>export const meta = { title: 'Intro' }\<close>, in one block, the metadata is undefined. And
  so it is when \<^verbatim>\<open>meta\<close> is not the first declarator:
  \<^verbatim>\<open>export const order = 1, meta = { title: 'Intro' }\<close>.
\<close>

theorem extractMetaExport_not_as_stated:
  "extractMetaExport
     [example_meta_export
        [Property (Identifier ''draft'') (Literal (LBoolean False)),
         Property (Identifier ''order'') (Literal (LNumber 0))]]
   = Some [(''draft'', None), (''order'', None)] \<and>
   extractMetaExport
     [example_meta_export [Property (Literal (LString ''title'')) (Literal (LString ''Intro''))]]
   = Some [] \<and>
   extractMetaExport
     [Node ''mdxjsEsm''
        (Some [ImportDeclaration,
               ExportNamedDeclaration (Some (VariableDeclaration
                 [VariableDeclarator (IdentifierPattern ''meta'')
                    (Some (ObjectExpression [Property (Identifier ''title'') (Literal (LString ''Intro''))]))]))])
        [] []]
   = None \<and>
   extractMetaExport
     [Node ''mdxjsEsm''
        (Some [ExportNamedDeclaration (Some (VariableDeclaration
                 [VariableDeclarator (IdentifierPattern ''order'') (Some (Literal (LNumber 1))),
                  VariableDeclarator (IdentifierPattern ''meta'')
                    (Some (ObjectExpression [Property (Identifier ''title'') (Literal (LString ''Intro''))]))]))])
        [] []]
   = None"
  by (simp add: extractMetaExport_def is_meta_export_def example_meta_export_def
      getObjectFromExpression_def)

text \<open>
  C4 (as amended). The section trees are a partition of the stripped body in order; no
  tree is empty, a heading stands only at the start of a tree, and every tree after the
  first starts with a heading. Each tree becomes one section, rendered whole, whose
  heading is the text of its leading heading and is undefined when it starts with
  another node. A non-empty body without headings gives exactly one section, the whole
  body with heading and slug undefined; an empty body gives no section.
\<close>

theorem segmentation_partitions_at_headings:
  "concat (splitTreeBy body is_heading) = body \<and>
   (\<forall>t \<in> set (splitTreeBy body is_heading). t \<noteq> [] \<and> (\<forall>n \<in> set (tl t). \<not> is_heading n)) \<and>
   (\<forall>t \<in> set (tl (splitTreeBy body is_heading)). is_heading (hd t)) \<and>
   (\<exists>sections. make_sections E [] (splitTreeBy body is_heading) = Inr sections \<and>
      map section_content sections = map (toMarkdown E) (splitTreeBy body is_heading) \<and>
      map section_heading sections = map (heading_of E) (splitTreeBy body is_heading)) \<and>
   (body \<noteq> [] \<and> (\<forall>n \<in> set body. \<not> is_heading n) \<longrightarrow>
      make_sections E [] (splitTreeBy body is_heading) =
        Inr [\<lparr>section_content = toMarkdown E body, section_heading = None, section_slug = None\<rparr>]) \<and>
   (body = [] \<longrightarrow> make_sections E [] (splitTreeBy body is_heading) = Inr [])"
proof -
  note shape = splitTreeBy_shape [of body is_heading]
  have ok: "\<exists>sections. make_sections E [] (splitTreeBy body is_heading) = Inr sections \<and>
      map section_content sections = map (toMarkdown E) (splitTreeBy body is_heading) \<and>
      map section_heading sections = map (heading_of E) (splitTreeBy body is_heading)"
    using shape by (intro make_sections_ok) blast
  have one: "make_sections E [] (splitTreeBy body is_heading) =
        Inr [\<lparr>section_content = toMarkdown E body, section_heading = None, section_slug = None\<rparr>]"
    if nh: "body \<noteq> [] \<and> (\<forall>n \<in> set body. \<not> is_heading n)"
  proof -
    obtain n ns where b: "body = n # ns" using nh by (cases body) auto
    have "splitTreeBy body is_heading = [body]" using nh by (simp add: splitTreeBy_no_split)
    then show ?thesis using nh unfolding b by (simp add: is_heading_def)
  qed
  show ?thesis
    using shape ok one by (simp add: splitTreeBy_concat splitTreeBy_Nil)
qed

theorem segmentation_partitions_at_headings_witness:
  "splitTreeBy [example_paragraph ''Lead'', example_heading ''Usage'', example_paragraph ''Do X''] is_heading
     = [[example_paragraph ''Lead''], [example_heading ''Usage'', example_paragraph ''Do X'']] \<and>
   make_sections example_env [] (splitTreeBy [example_paragraph ''Just text''] is_heading)
     = Inr [\<lparr>section_content = ''Just text'', section_heading = None, section_slug = None\<rparr>] \<and>
   make_sections example_env [] (splitTreeBy [] is_heading) = Inr []"
proof -
  have h: "[example_paragraph ''Just text''] \<noteq> [] \<and>
      (\<forall>n \<in> set [example_paragraph ''Just text'']. \<not> is_heading n)"
    by (simp add: is_heading_def example_paragraph_def)
  have one: "make_sections example_env [] (splitTreeBy [example_paragraph ''Just text''] is_heading) =
      Inr [\<lparr>section_content = toMarkdown example_env [example_paragraph ''Just text''],
            section_heading = None, section_slug = None\<rparr>]"
    using segmentation_partitions_at_headings [of "[example_paragraph ''Just text'']" example_env] h
    by blast
  have none: "make_sections example_env [] (splitTreeBy [] is_heading) = Inr []"
    using segmentation_partitions_at_headings [of "[]" example_env] by blast
  have split: "splitTreeBy [example_paragraph ''Lead'', example_heading ''Usage'', example_paragraph ''Do X''] is_heading
      = [[example_paragraph ''Lead''], [example_heading ''Usage'', example_paragraph ''Do X'']]"
    by (simp add: splitTreeBy_def splitTreeBy_step_def is_heading_def example_paragraph_def
        example_heading_def)
  have rendered: "toMarkdown example_env [example_paragraph ''Just text''] = ''Just text''"
    by (simp add: example_env_def example_paragraph_def)
  show ?thesis using one none split rendered by simp
qed

text \<open>
  C4 as stated fails for the empty body, which has no heading and gives no section.
\<close>

theorem empty_body_has_no_section:
  "splitTreeBy [] is_heading = [] \<and> make_sections example_env [] (splitTreeBy [] is_heading) = Inr []"
  by (simp add: splitTreeBy_def)

section \<open>Properties of content discovery\<close>

lemma flatten_results_Nil: "flatten_results [] = Inr []"
  by (simp add: flatten_results_def)

lemma flatten_results_Cons:
  "flatten_results (r # rs) =
     (case r of
        Inl e \<Rightarrow> Inl e
      | Inr xs \<Rightarrow> (case flatten_results rs of Inl e \<Rightarrow> Inl e | Inr ys \<Rightarrow> Inr (xs @ ys)))"
  by (simp add: flatten_results_def split: sum.splits)

lemma walk_Listing:
  "walk le dir parentPath (Listing files) =
     (case flatten_results (map (walk_file le dir parentPath) files) of
        Inl e \<Rightarrow> Inl e
      | Inr entries \<Rightarrow> Inr (sort_entries le entries))"
  by (simp add: flatten_results_def split: sum.splits)

lemma set_insort_entry: "set (insort_entry le x ys) = insert x (set ys)"
  by (induction ys) auto

lemma set_sort_entries: "set (sort_entries le xs) = set xs"
  by (induction xs) (simp_all add: sort_entries_def set_insort_entry)

lemma walk_prune_both:
  "walk le dir parentPath listing = walk le dir parentPath (prune listing)"
  "flatten_results (map (walk_file le dir parentPath) files) =
     flatten_results (map (walk_file le dir parentPath) (prune_entries files))"
proof (induction listing and files arbitrary: dir and dir rule: prune_prune_entries.induct)
  case 1
  then show ?case by simp
next
  case (2 files)
  then show ?case by (simp only: prune.simps walk_Listing)
next
  case 3
  then show ?case by simp
next
  case (4 name files)
  then show ?case by (simp add: flatten_results_Cons)
next
  case (5 name listing files)
  show ?case
  proof (cases "name \<in> set ignoredDirectories")
    case True
    then show ?thesis
      using 5(1) [OF True, of dir] by (simp add: flatten_results_Cons split: sum.splits)
  next
    case False
    then show ?thesis
      using 5(2) [OF False, of "join dir name"] 5(3) [OF False, of dir]
      by (simp add: flatten_results_Cons cong: sum.case_cong)
  qed
qed

lemma walk_parentPath_both:
  "walk le dir parentPath listing = Inr es \<Longrightarrow> \<forall>e \<in> set es. entry_parentPath e = parentPath"
  "walk_file le dir parentPath f = Inr es \<Longrightarrow> \<forall>e \<in> set es. entry_parentPath e = parentPath"
proof (induction le dir parentPath listing and le dir parentPath f arbitrary: es and es rule: walk_walk_file.induct)
  case (1 le dir parentPath)
  then show ?case by simp
next
  case (2 le dir parentPath files)
  from 2(2) obtain ess where ess: "promise_all (map (walk_file le dir parentPath) files) = Inr ess"
    and es: "es = sort_entries le (concat ess)"
    by (auto split: sum.splits)
  have "\<forall>xs \<in> set ess. \<forall>e \<in> set xs. entry_parentPath e = parentPath"
    using ess 2(1)
  proof (induction files arbitrary: ess)
    case Nil
    then show ?case by simp
  next
    case (Cons f files)
    then show ?case by (fastforce split: sum.splits)
  qed
  then show ?case by (simp add: es set_sort_entries)
next
  case (3 le dir parentPath name listing)
  then show ?case by (auto split: if_splits)
next
  case (4 le dir parentPath name)
  then show ?case by (auto split: if_splits)
qed

text \<open>
  C7. A directory whose name is on the deny-list contributes no entry, whatever it
  contains, and it is not listed: the manifest of a tree is the manifest of the tree with
  every ignored directory removed, at every depth, so neither the eligible files below an
  ignored directory nor a failing request below it has any effect.
\<close>

theorem walk_excludes_ignored_directories:
  "(name \<in> set ignoredDirectories \<longrightarrow>
      walk_file le dir parentPath (GhDir name listing) = Inr []) \<and>
   walk le dir parentPath remote = walk le dir parentPath (prune remote)"
  using walk_prune_both(1) [of le dir parentPath remote] by simp

theorem walk_excludes_ignored_directories_witness:
  "walk_file example_le ''docs'' None (GhDir ''03-pages'' (Listing [GhFile ''api.mdx''])) = Inr [] \<and>
   walk example_le ''docs'' None
     (Listing [GhDir ''03-pages'' (Listing [GhFile ''api.mdx'', GhDir ''deep'' Unreachable]),
               GhFile ''a.mdx''])
     = Inr [\<lparr>entry_path = ''docs/a.mdx'', entry_parentPath = None\<rparr>]"
proof -
  have h: "''03-pages'' \<in> set ignoredDirectories" by (simp add: ignoredDirectories_def)
  note t = walk_excludes_ignored_directories
    [of "''03-pages''" example_le "''docs''" None "Listing [GhFile ''api.mdx'']"
        "Listing [GhDir ''03-pages'' (Listing [GhFile ''api.mdx'', GhDir ''deep'' Unreachable]),
                  GhFile ''a.mdx'']"]
  have pruned: "prune (Listing [GhDir ''03-pages'' (Listing [GhFile ''api.mdx'', GhDir ''deep'' Unreachable]),
                  GhFile ''a.mdx'']) = Listing [GhFile ''a.mdx'']"
    by (simp add: ignoredDirectories_def)
  have "walk example_le ''docs'' None (Listing [GhFile ''a.mdx''])
      = Inr [\<lparr>entry_path = ''docs/a.mdx'', entry_parentPath = None\<rparr>]"
    by (simp add: ignoredFiles_def hasMdxFileExtension_def ends_with_def join_def sort_entries_def)
  then show ?thesis using t h pruned by simp
qed

text \<open>
  C9. \<^verbatim>\<open>walk\<close> hands its own \<^verbatim>\<open>parentPath\<close> argument down unchanged, so every entry
  carries the argument of the outermost call (undefined for \<^verbatim>\<open>walk('docs')\<close>) and not
  the directory that holds the file; \<^verbatim>\<open>walkGithubDirectory\<close> tags the same file with
  its directory.
\<close>

theorem walk_tags_with_callers_parentPath:
  "walk example_le ''docs'' None (Listing [GhDir ''01-app'' (Listing [GhFile ''intro.mdx''])])
     = Inr [\<lparr>entry_path = ''docs/01-app/intro.mdx'', entry_parentPath = None\<rparr>] \<and>
   walkGithubDirectory example_le ''docs'' (Listing [GhDir ''01-app'' (Listing [GhFile ''intro.mdx''])])
     = Inr [\<lparr>entry_path = ''docs/01-app/intro.mdx'', entry_parentPath = Some ''docs/01-app''\<rparr>]"
  by (simp add: ignoredDirectories_def ignoredFiles_def hasMdxFileExtension_def ends_with_def
      join_def sort_entries_def)

section \<open>Properties of the slug generator\<close>

lemma slug_loop_fresh:
  "slug_loop occ original result = (occ', r) \<Longrightarrow>
     \<not> has_own occ' r \<and> fst ` set occ \<subseteq> fst ` set occ'"
proof (induction occ original result arbitrary: occ' r rule: slug_loop.induct)
  case (1 occ original result)
  show ?case
  proof (cases "has_own occ result")
    case True
    let ?n = "Suc (counter occ original)"
    have "slug_loop (AList.update original ?n occ) original (original @ ''-'' @ show_nat ?n) = (occ', r)"
      using 1(2) True by (subst (asm) slug_loop.simps) (simp add: Let_def)
    from 1(1) [OF True refl this]
    show ?thesis by (auto simp: dom_update)
  next
    case False
    then show ?thesis using 1(2) by (subst (asm) slug_loop.simps) auto
  qed
qed

lemma slugger_slug_fresh:
  assumes "slugger_slug f occ v = (occ', r)"
  shows "r \<notin> fst ` set occ \<and> r \<in> fst ` set occ' \<and> fst ` set occ \<subseteq> fst ` set occ'"
proof -
  obtain occ1 r1 where l: "slug_loop occ (f v) (f v) = (occ1, r1)" by (cases "slug_loop occ (f v) (f v)")
  then have eq: "occ' = AList.update r1 0 occ1" "r = r1"
    using assms by (auto simp: slugger_slug_def)
  from slug_loop_fresh [OF l] show ?thesis
    unfolding eq by (auto simp: has_own_def dom_update)
qed

lemma make_sections_slugs:
  "make_sections E occ trees = Inr sections \<Longrightarrow>
     distinct (defined_slugs sections) \<and>
     set (defined_slugs sections) \<inter> fst ` set occ = {} \<and>
     map section_slug sections = slugs_of_headings (slugify E) occ (map section_heading sections)"
proof (induction E occ trees arbitrary: sections rule: make_sections.induct)
  case (1 E occ)
  then show ?case by (simp add: defined_slugs_def map_filter_simps)
next
  case (2 E occ trees)
  then show ?case by simp
next
  case (3 E occ firstNode nodes trees)
  let ?h = "toString E firstNode"
  show ?case
  proof (cases "node_type firstNode = ''heading'' \<and> ?h \<noteq> []")
    case True
    obtain occ1 s where sl: "slugger_slug (slugify E) occ ?h = (occ1, s)"
      by (cases "slugger_slug (slugify E) occ ?h")
    from 3(2) True sl obtain rest where
      rest: "make_sections E occ1 trees = Inr rest"
      and sections: "sections = \<lparr>section_content = toMarkdown E (firstNode # nodes),
          section_heading = Some ?h, section_slug = Some s\<rparr> # rest"
      by (auto simp: Let_def split: sum.splits)
    have ih: "distinct (defined_slugs rest) \<and> set (defined_slugs rest) \<inter> fst ` set occ1 = {} \<and>
        map section_slug rest = slugs_of_headings (slugify E) occ1 (map section_heading rest)"
      using 3(1) [of "Some ?h" "(occ1, Some s)" occ1 "Some s" rest] True sl rest by simp
    from slugger_slug_fresh [OF sl] ih show ?thesis
      unfolding sections using True sl
      by (auto simp: defined_slugs_def map_filter_simps)
  next
    case False
    from 3(2) False obtain rest where
      rest: "make_sections E occ trees = Inr rest"
      and sections: "sections = \<lparr>section_content = toMarkdown E (firstNode # nodes),
          section_heading = (if node_type firstNode = ''heading'' then Some ?h else None),
          section_slug = None\<rparr> # rest"
      by (auto simp: Let_def split: sum.splits if_splits)
    have ih: "distinct (defined_slugs rest) \<and> set (defined_slugs rest) \<inter> fst ` set occ = {} \<and>
        map section_slug rest = slugs_of_headings (slugify E) occ (map section_heading rest)"
      using 3(1) [of "if node_type firstNode = ''heading'' then Some ?h else None" "(occ, None)" occ None rest]
        False rest by (auto split: if_splits)
    then show ?thesis
      unfolding sections using False
      by (auto simp: defined_slugs_def map_filter_simps)
  qed
qed

text \<open>
  C6. The slugs of one document are pairwise distinct, and they are the slugs that a
  fresh generator gives to the document's headings in order: they depend on the heading
  sequence alone, and no state is carried from one document to the next. Two sections
  titled "Usage" get \<^verbatim>\<open>usage\<close> and \<^verbatim>\<open>usage-1\<close>.
\<close>

theorem slugs_distinct_within_document:
  "processMdxForSearch E content = Inr doc \<longrightarrow>
     distinct (defined_slugs (mdx_sections doc)) \<and>
     map section_slug (mdx_sections doc) =
       slugs_of_headings (slugify E) [] (map section_heading (mdx_sections doc))"
proof
  assume a: "processMdxForSearch E content = Inr doc"
  show "distinct (defined_slugs (mdx_sections doc)) \<and>
     map section_slug (mdx_sections doc) =
       slugs_of_headings (slugify E) [] (map section_heading (mdx_sections doc))"
  proof (cases "mdx_sections doc = []")
    case True
    then show ?thesis by (simp add: defined_slugs_def map_filter_simps)
  next
    case False
    then obtain trees where "make_sections E [] trees = Inr (mdx_sections doc)"
      using a by (auto simp: processMdxForSearch_def Let_def split: option.splits sum.splits)
    from make_sections_slugs [OF this] show ?thesis by simp
  qed
qed

theorem slugs_distinct_within_document_witness:
  "\<exists>doc. processMdxForSearch example_env ''Intro Usage Usage'' = Inr doc \<and>
     map section_heading (mdx_sections doc) = [Some ''Intro'', Some ''Usage'', Some ''Usage''] \<and>
     map section_slug (mdx_sections doc) = [Some ''intro'', Some ''usage'', Some ''usage-1''] \<and>
     distinct (defined_slugs (mdx_sections doc)) \<and>
     slugs_of_headings (slugify example_env) [] (map section_heading (mdx_sections doc)) =
       [Some ''intro'', Some ''usage'', Some ''usage-1'']"
proof -
  let ?doc = "\<lparr>mdx_checksum = ''sha256:Intro Usage Usage'', mdx_meta = None,
      mdx_sections =
        [\<lparr>section_content = ''IntroHello'', section_heading = Some ''Intro'',
           section_slug = Some ''intro''\<rparr>,
         \<lparr>section_content = ''UsageDo X'', section_heading = Some ''Usage'',
           section_slug = Some ''usage''\<rparr>,
         \<lparr>section_content = ''UsageDo Y'', section_heading = Some ''Usage'',
           section_slug = Some ''usage-1''\<rparr>]\<rparr>"
  have run: "processMdxForSearch example_env ''Intro Usage Usage'' = Inr ?doc"
    by code_simp
  from slugs_distinct_within_document [of example_env "''Intro Usage Usage''" ?doc] run
  have "distinct (defined_slugs (mdx_sections ?doc)) \<and>
     map section_slug (mdx_sections ?doc) =
       slugs_of_headings (slugify example_env) [] (map section_heading (mdx_sections ?doc))"
    by blast
  then show ?thesis using run by (intro exI [of _ ?doc]) simp
qed

section \<open>Properties of the store operations\<close>

lemma find_map_option:
  "find P (map f xs) = map_option f (find (\<lambda>x. P (f x)) xs)"
  by (induction xs) auto


lemma find_page_by_path_map:
  "(\<And>p. page_path (f p) = page_path p) \<Longrightarrow>
   find_page_by_path (map f ps) k = map_option f (find_page_by_path ps k)"
  by (cases k) (simp_all add: find_map_option)

lemma find_set_checksum:
  "find_page_by_path (set_checksum i c ps) k =
     map_option (\<lambda>p. if page_id p = i then p\<lparr>page_checksum := Some c\<rparr> else p) (find_page_by_path ps k)"
  unfolding set_checksum_def by (rule find_page_by_path_map) simp

lemma set_parent_None: "set_parent i None ps = ps"
  by (simp add: set_parent_def)

lemma find_set_parent:
  "find_page_by_path (set_parent i (Some x) ps) k =
     map_option (\<lambda>p. if page_id p = i then p\<lparr>page_parent_page_id := Some x\<rparr> else p) (find_page_by_path ps k)"
  unfolding set_parent_def option.case by (rule find_page_by_path_map) simp

lemma set_parent_checksums:
  "map_option page_checksum (find_page_by_path (set_parent i x ps) k)
     = map_option page_checksum (find_page_by_path ps k)"
proof (cases x)
  case None
  then show ?thesis by (simp add: set_parent_None)
next
  case (Some parent_id)
  then show ?thesis by (cases "find_page_by_path ps k") (simp_all add: find_set_parent)
qed

lemma find_page_by_path_Some:
  "find_page_by_path ps k = Some p \<Longrightarrow> p \<in> set ps \<and> k = Some (page_path p)"
  by (cases k) (auto simp: find_Some_iff)

lemma find_append:
  "find P (xs @ ys) = (case find P xs of None \<Rightarrow> find P ys | Some x \<Rightarrow> Some x)"
  by (induction xs) auto

lemma find_upsert_same:
  "\<exists>p. find_page_by_path (upsert_rows ps path t s m x) (Some path) = Some p \<and>
     page_path p = path \<and> page_checksum p = None \<and>
     (x \<noteq> None \<longrightarrow> page_parent_page_id p = x) \<and>
     (x = None \<longrightarrow> page_parent_page_id p =
        Option.bind (find_page_by_path ps (Some path)) page_parent_page_id) \<and>
     (\<forall>q. find_page_by_path ps (Some path) = Some q \<longrightarrow> page_id p = page_id q)"
proof (cases "find_page_by_path ps (Some path)")
  case None
  then show ?thesis by (simp add: upsert_rows_def find_append)
next
  case (Some q)
  then have q: "page_path q = path" using find_page_by_path_Some by fastforce
  have "find_page_by_path (map (\<lambda>p. if page_path p = path then overwrite_row t s m x p else p) ps) (Some path) =
      map_option (\<lambda>p. if page_path p = path then overwrite_row t s m x p else p)
        (find_page_by_path ps (Some path))"
    by (rule find_page_by_path_map) (simp add: overwrite_row_def)
  then have "find_page_by_path (upsert_rows ps path t s m x) (Some path) = Some (overwrite_row t s m x q)"
    using Some q unfolding upsert_rows_def by simp
  then show ?thesis using Some q by (cases x) (simp_all add: overwrite_row_def)
qed


declare find_page_by_path.simps [simp del]





lemma issue_effect: "issue E q w = (b, w1) \<Longrightarrow> w1 = w\<lparr>requests := requests w @ [q]\<rparr>"
  by (auto simp: issue_def)

lemma processMdxForSearch_checksum:
  "processMdxForSearch E content = Inr doc \<Longrightarrow> mdx_checksum doc = sha256 E (unwrapTitle E content)"
  by (auto simp: processMdxForSearch_def Let_def split: option.splits sum.splits)

lemma load_effect:
  "load E src w = (r, w1) \<Longrightarrow>
     w1 = w\<lparr>requests := requests w @ [HttpGet (src_filePath src)]\<rparr> \<and>
     (\<forall>doc. r = Inr doc \<longrightarrow> processMdxForSearch E (fetchRaw E (src_filePath src)) = Inr doc)"
  by (auto simp: load_def issue_def split: if_splits)

lemma select_page_effect:
  "select_page E k w = (r, w1) \<Longrightarrow>
     w1 = w\<lparr>requests := requests w @ [SelectPage k]\<rparr> \<and>
     (\<forall>x. r = Inr x \<longrightarrow> x = find_page_by_path (pages w) k)"
  by (auto simp: select_page_def issue_def split: if_splits)

lemma update_parent_effect:
  "update_parent E ex pp w = (r, w') \<Longrightarrow>
     page_sections w' = page_sections w \<and> console_error w' = console_error w \<and>
     (r = None \<longrightarrow>
        pages w' = set_parent (page_id ex) (map_option page_id (find_page_by_path (pages w) pp)) (pages w) \<and>
        requests w' = requests w @ [SelectPage pp, UpdateParent (page_id ex)]) \<and>
     (r \<noteq> None \<longrightarrow>
        pages w' = pages w \<and>
        (requests w' = requests w @ [SelectPage pp] \<or>
         requests w' = requests w @ [SelectPage pp, UpdateParent (page_id ex)]))"
  by (auto simp: update_parent_def select_page_def issue_def split: if_splits)

lemma delete_page_sections_effect:
  "delete_page_sections E existing w = (r, w') \<Longrightarrow>
     pages w' = pages w \<and> console_error w' = console_error w \<and>
     (\<exists>rs. requests w' = requests w @ rs) \<and>
     (\<exists>kept. set kept \<subseteq> set (page_sections w) \<and> page_sections w' = kept)"
  by (auto simp: delete_page_sections_def issue_def split: option.splits if_splits)

lemma upsert_page_effect:
  "upsert_page E src meta parentPage w = (r, w') \<Longrightarrow>
     page_sections w' = page_sections w \<and> console_error w' = console_error w \<and>
     (\<exists>rs. requests w' = requests w @ rs) \<and>
     (\<forall>e. r = Inl e \<longrightarrow> pages w' = pages w) \<and>
     (\<forall>p. r = Inr p \<longrightarrow>
        pages w' = upsert_rows (pages w) (src_path src) ''github'' (src_source src) meta
                     (map_option page_id parentPage) \<and>
        find_page_by_path (pages w') (Some (src_path src)) = Some p)"
  by (auto simp: upsert_page_def issue_def Let_def split: option.splits if_splits)

lemma embed_section_effect:
  "embed_section E path pid s w = (r, w') \<Longrightarrow>
     pages w' = pages w \<and> (\<exists>rs. requests w' = requests w @ rs) \<and>
     (r = None \<longrightarrow>
        page_sections w' = page_sections w @ [section_row E pid s] \<and>
        console_error w' = console_error w \<and>
        requests w' = requests w @ section_requests pid s) \<and>
     (r \<noteq> None \<longrightarrow>
        page_sections w' = page_sections w \<and>
        (\<exists>input. console_error w' = console_error w @ [SectionFailed path input]))"
  by (auto simp: embed_section_def issue_def Let_def section_requests_def split: if_splits)

lemma embed_sections_effect:
  "embed_sections E path pid ss w = (r, w') \<Longrightarrow>
     pages w' = pages w \<and> (\<exists>rs. requests w' = requests w @ rs) \<and>
     (r = None \<longrightarrow>
        page_sections w' = page_sections w @ map (section_row E pid) ss \<and>
        console_error w' = console_error w \<and>
        requests w' = requests w @ concat (map (section_requests pid) ss)) \<and>
     (r \<noteq> None \<longrightarrow>
        (\<exists>input. console_error w' = console_error w @ [SectionFailed path input]))"
proof (induction ss arbitrary: w)
  case Nil
  then show ?case by simp
next
  case (Cons s ss)
  obtain r1 w1 where one: "embed_section E path pid s w = (r1, w1)"
    by (cases "embed_section E path pid s w")
  note e1 = embed_section_effect [OF one]
  show ?case
  proof (cases r1)
    case None
    then have rest: "embed_sections E path pid ss w1 = (r, w')"
      using Cons.prems one by simp
    from Cons.IH [OF rest] e1 None show ?thesis by auto
  next
    case (Some e)
    then have "r = Some e" "w' = w1" using Cons.prems one by simp_all
    then show ?thesis using e1 Some by auto
  qed
qed

lemma update_checksum_effect:
  "update_checksum E pid c w = (r, w') \<Longrightarrow>
     page_sections w' = page_sections w \<and> console_error w' = console_error w \<and>
     requests w' = requests w @ [UpdateChecksum pid] \<and>
     (r = None \<longrightarrow> pages w' = set_checksum pid c (pages w)) \<and>
     (r \<noteq> None \<longrightarrow> pages w' = pages w)"
  by (auto simp: update_checksum_def issue_def split: if_splits)

text \<open>The three ways a regeneration can end.\<close>

lemma regenerate_cases:
  assumes "regenerate E src doc existing w = (r, w')"
  shows "(\<exists>rs. requests w' = requests w @ rs) \<and>
    ((r \<noteq> None \<and> pages w' = pages w \<and> console_error w' = console_error w) \<or>
     (r \<noteq> None \<and> pages w' = upserted_rows src doc (pages w) \<and>
        (console_error w' = console_error w \<or>
         (\<exists>input. console_error w' = console_error w @ [SectionFailed (src_path src) input]))) \<or>
     (r = None \<and> console_error w' = console_error w \<and>
        (\<exists>p kept before. find_page_by_path (upserted_rows src doc (pages w)) (Some (src_path src)) = Some p \<and>
           pages w' = set_checksum (page_id p) (mdx_checksum doc) (upserted_rows src doc (pages w)) \<and>
           set kept \<subseteq> set (page_sections w) \<and>
           page_sections w' = kept @ map (section_row E (page_id p)) (mdx_sections doc) \<and>
           requests w' = requests w @ before @
             concat (map (section_requests (page_id p)) (mdx_sections doc)) @ [UpdateChecksum (page_id p)])))"
proof -
  obtain r1 w1 where d: "delete_page_sections E existing w = (r1, w1)"
    by (cases "delete_page_sections E existing w")
  note e1 = delete_page_sections_effect [OF d]
  show ?thesis
  proof (cases r1)
    case (Some e)
    then show ?thesis using assms d e1 by (auto simp: regenerate_def)
  next
    case None
    obtain r2 w2 where s: "select_page E (src_parentPath src) w1 = (r2, w2)"
      by (cases "select_page E (src_parentPath src) w1")
    note e2 = select_page_effect [OF s]
    show ?thesis
    proof (cases r2)
      case (Inl e)
      then show ?thesis using assms d None s e1 e2 by (auto simp: regenerate_def)
    next
      case (Inr parentPage)
      then have parent: "parentPage = find_page_by_path (pages w) (src_parentPath src)"
        using e1 e2 by simp
      obtain r3 w3 where u: "upsert_page E src (mdx_meta doc) parentPage w2 = (r3, w3)"
        by (cases "upsert_page E src (mdx_meta doc) parentPage w2")
      note e3 = upsert_page_effect [OF u]
      show ?thesis
      proof (cases r3)
        case (Inl e)
        then show ?thesis using assms d None s \<open>r2 = Inr parentPage\<close> u e1 e2 e3
          by (auto simp: regenerate_def)
      next
        case (Inr p)
        have rows: "pages w3 = upserted_rows src doc (pages w)"
          using e1 e2 e3 Inr parent by (simp add: upserted_rows_def)
        have "find_page_by_path (pages w3) (Some (src_path src)) = Some p"
          using e3 Inr by blast
        then have found: "find_page_by_path (upserted_rows src doc (pages w)) (Some (src_path src)) = Some p"
          unfolding rows .
        obtain r4 w4 where m: "embed_sections E (src_path src) (page_id p) (mdx_sections doc) w3 = (r4, w4)"
          by (cases "embed_sections E (src_path src) (page_id p) (mdx_sections doc) w3")
        note e4 = embed_sections_effect [OF m]
        show ?thesis
        proof (cases r4)
          case (Some e)
          then have "r = Some e" "w' = w4"
            using assms d None s \<open>r2 = Inr parentPage\<close> u Inr m by (simp_all add: regenerate_def)
          then show ?thesis using e1 e2 e3 e4 Some rows by auto
        next
          case None4: None
          have c: "update_checksum E (page_id p) (mdx_checksum doc) w4 = (r, w')"
            using assms d None s \<open>r2 = Inr parentPage\<close> u Inr m None4 by (simp add: regenerate_def)
          note e5 = update_checksum_effect [OF c]
          obtain kept where kept: "set kept \<subseteq> set (page_sections w)" "page_sections w1 = kept"
            using e1 by blast
          show ?thesis
          proof (cases r)
            case None
            have "page_sections w' = kept @ map (section_row E (page_id p)) (mdx_sections doc)"
              using e2 e3 e4 e5 None4 kept by simp
            moreover have "pages w' = set_checksum (page_id p) (mdx_checksum doc) (upserted_rows src doc (pages w))"
              using e4 e5 None rows by simp
            moreover have "console_error w' = console_error w"
              using e1 e2 e3 e4 e5 None4 by simp
            moreover have "\<exists>rs. requests w' = requests w @ rs"
              using e1 e2 e3 e4 e5 by auto
            moreover have "\<exists>before. requests w' = requests w @ before @
                concat (map (section_requests (page_id p)) (mdx_sections doc)) @ [UpdateChecksum (page_id p)]"
            proof -
              obtain rs3 where "requests w3 = requests w @ rs3" using e1 e2 e3 by auto
              then have "requests w' = requests w @ rs3 @
                concat (map (section_requests (page_id p)) (mdx_sections doc)) @ [UpdateChecksum (page_id p)]"
                using e4 e5 None4 by simp
              then show ?thesis by blast
            qed
            ultimately show ?thesis using None found kept(1) by blast
          next
            case (Some e)
            have "pages w' = upserted_rows src doc (pages w)"
              using e4 e5 Some rows by simp
            moreover have "console_error w' = console_error w"
              using e1 e2 e3 e4 e5 None4 by simp
            moreover have "\<exists>rs. requests w' = requests w @ rs"
              using e1 e2 e3 e4 e5 by auto
            ultimately show ?thesis using Some by blast
          qed
        qed
      qed
    qed
  qed
qed

section \<open>Properties of reconciliation\<close>

text \<open>The four ways the reconciliation of one source can go.\<close>

lemma reconcile_cases [consumes 1, case_names Failed Unchanged Relink Regenerate]:
  assumes "reconcile E src w = (r, w')"
  obtains
    (Failed) "r \<noteq> None" "pages w' = pages w" "page_sections w' = page_sections w"
      "console_error w' = console_error w"
      "requests w' = requests w @ [HttpGet (src_filePath src)] \<or> w' = after_lookup src w"
  | (Unchanged) doc ex where
      "processMdxForSearch E (fetchRaw E (src_filePath src)) = Inr doc"
      "find_page_by_path (pages w) (Some (src_path src)) = Some ex"
      "page_checksum ex = Some (mdx_checksum doc)"
      "map_option page_path (parentPage_of (pages w) ex) = src_parentPath src"
      "r = None" "w' = after_lookup src w"
  | (Relink) doc ex where
      "processMdxForSearch E (fetchRaw E (src_filePath src)) = Inr doc"
      "find_page_by_path (pages w) (Some (src_path src)) = Some ex"
      "page_checksum ex = Some (mdx_checksum doc)"
      "map_option page_path (parentPage_of (pages w) ex) \<noteq> src_parentPath src"
      "update_parent E ex (src_parentPath src) (after_lookup src w) = (r, w')"
  | (Regenerate) doc where
      "processMdxForSearch E (fetchRaw E (src_filePath src)) = Inr doc"
      "\<forall>ex. find_page_by_path (pages w) (Some (src_path src)) = Some ex \<longrightarrow>
         page_checksum ex \<noteq> Some (mdx_checksum doc)"
      "regenerate E src doc (find_page_by_path (pages w) (Some (src_path src))) (after_lookup src w) = (r, w')"
proof -
  obtain r1 w1 where l: "load E src w = (r1, w1)" by (cases "load E src w")
  note e1 = load_effect [OF l]
  show thesis
  proof (cases r1)
    case (Inl e)
    then have "r = Some e" "w' = w1" using assms l by (simp_all add: reconcile_def)
    then show thesis using e1 by (intro Failed) simp_all
  next
    case (Inr doc)
    then have doc: "processMdxForSearch E (fetchRaw E (src_filePath src)) = Inr doc"
      using e1 by simp
    obtain r2 w2 where s: "select_page E (Some (src_path src)) w1 = (r2, w2)"
      by (cases "select_page E (Some (src_path src)) w1")
    note e2 = select_page_effect [OF s]
    have w2: "w2 = after_lookup src w" using e1 e2 by (simp add: after_lookup_def)
    show thesis
    proof (cases r2)
      case (Inl e)
      then have "r = Some e" "w' = w2" using assms l Inr s by (simp_all add: reconcile_def)
      then show thesis using w2 by (intro Failed) (simp_all add: after_lookup_def)
    next
      case existing: (Inr existingPage)
      have fnd: "find_page_by_path (pages w) (Some (src_path src)) = existingPage"
        using existing e1 e2 by simp
      have pw2: "pages w2 = pages w" using w2 by (simp add: after_lookup_def)
      have body: "(case existingPage of
                  None \<Rightarrow> regenerate E src doc existingPage w2
                | Some ex \<Rightarrow>
                    if page_checksum ex = Some (mdx_checksum doc)
                    then (if map_option page_path (parentPage_of (pages w2) ex) \<noteq> src_parentPath src
                          then update_parent E ex (src_parentPath src) w2
                          else (None, w2))
                    else regenerate E src doc existingPage w2) = (r, w')"
        using assms l Inr s existing
        by (simp add: reconcile_def shouldRefresh_def cong: option.case_cong)
      show thesis
      proof (cases existingPage)
        case None
        then have "regenerate E src doc existingPage w2 = (r, w')" using body by simp
        then show thesis using doc None unfolding w2
          by (intro Regenerate [of doc]) (simp_all add: fnd)
      next
        case (Some p)
        show thesis
        proof (cases "page_checksum p = Some (mdx_checksum doc)")
          case False
          then have "regenerate E src doc existingPage w2 = (r, w')" using body Some by simp
          then show thesis using doc Some False unfolding w2
            by (intro Regenerate [of doc]) (simp_all add: fnd)
        next
          case True
          show thesis
          proof (cases "map_option page_path (parentPage_of (pages w) p) = src_parentPath src")
            case same: True
            then have "r = None" "w' = w2" using body Some True pw2 by simp_all
            then show thesis using doc Some True same unfolding w2
              by (intro Unchanged [of doc p]) (simp_all add: fnd)
          next
            case False
            then have "update_parent E p (src_parentPath src) w2 = (r, w')"
              using body Some True pw2 by simp
            then show thesis using doc Some True False unfolding w2
              by (intro Relink [of doc p]) (simp_all add: fnd)
          qed
        qed
      qed
    qed
  qed
qed

lemma find_page_by_path_None: "find_page_by_path ps None = None"
  by (simp add: find_page_by_path.simps)

lemma after_lookup_simps:
  "pages (after_lookup src w) = pages w"
  "page_sections (after_lookup src w) = page_sections w"
  "console_error (after_lookup src w) = console_error w"
  "requests (after_lookup src w) = requests w @ [HttpGet (src_filePath src), SelectPage (Some (src_path src))]"
  by (simp_all add: after_lookup_def)

lemma doc_checksum:
  "processMdxForSearch E (fetchRaw E (src_filePath src)) = Inr doc \<Longrightarrow>
   mdx_checksum doc = source_checksum E src"
  by (simp add: processMdxForSearch_checksum source_checksum_def)

text \<open>An up-to-date source: nothing written, nothing embedded.\<close>

lemma reconcile_up_to_date:
  assumes "up_to_date E w src" and "reconcile E src w = (r, w')"
  shows "pages w' = pages w \<and> page_sections w' = page_sections w \<and>
     filter is_embedding_request (requests_since w w') = [] \<and>
     filter is_store_mutation (requests_since w w') = []"
proof -
  from assms(1) obtain ex where
    ex: "find_page_by_path (pages w) (Some (src_path src)) = Some ex"
    and sum: "page_checksum ex = Some (source_checksum E src)"
    and par: "map_option page_path (parentPage_of (pages w) ex) = src_parentPath src"
    by (auto simp: up_to_date_def split: option.splits)
  from assms(2) show ?thesis
  proof (cases rule: reconcile_cases)
    case Failed
    then show ?thesis by (auto simp: requests_since_def after_lookup_def)
  next
    case (Unchanged doc ex')
    then show ?thesis by (simp add: requests_since_def after_lookup_def)
  next
    case (Relink doc ex')
    then show ?thesis using ex par by simp
  next
    case (Regenerate doc)
    then show ?thesis using ex sum doc_checksum by fastforce
  qed
qed

lemma parentPage_of_None: "page_parent_page_id p = None \<Longrightarrow> parentPage_of ps p = None"
  by (simp add: parentPage_of_def)

text \<open>After a reconciliation without error the page carries the checksum of the document.\<close>

lemma reconcile_success:
  assumes "reconcile E src w = (None, w')"
  shows "\<exists>p. find_page_by_path (pages w') (Some (src_path src)) = Some p \<and>
     page_path p = src_path src \<and>
     page_checksum p = Some (source_checksum E src) \<and>
     (\<exists>rs. requests w' = requests w @ HttpGet (src_filePath src) # SelectPage (Some (src_path src)) # rs)"
  using assms
proof (cases rule: reconcile_cases)
  case Failed
  then show ?thesis by simp
next
  case (Unchanged doc ex)
  then show ?thesis
    using find_page_by_path_Some [of "pages w" "Some (src_path src)" ex]
    by (auto simp: after_lookup_simps doc_checksum)
next
  case (Relink doc ex)
  note e = update_parent_effect [OF Relink(5)]
  have path: "page_path ex = src_path src"
    using find_page_by_path_Some [OF Relink(2)] by simp
  show ?thesis
  proof (cases "find_page_by_path (pages w) (src_parentPath src)")
    case None
    then have "pages w' = pages w"
      using e by (simp add: after_lookup_simps set_parent_None)
    then show ?thesis
      using e Relink(2,3) path doc_checksum [OF Relink(1)] by (auto simp: after_lookup_simps)
  next
    case (Some parent)
    then have "find_page_by_path (pages w') (Some (src_path src))
        = Some (ex\<lparr>page_parent_page_id := Some (page_id parent)\<rparr>)"
      using e Relink(2) by (simp add: after_lookup_simps find_set_parent)
    then show ?thesis
      using e Relink(3) path doc_checksum [OF Relink(1)] by (auto simp: after_lookup_simps)
  qed
next
  case (Regenerate doc)
  let ?rows = "upserted_rows src doc (pages w)"
  from regenerate_cases [OF Regenerate(3)]
  obtain p kept rs where
    found: "find_page_by_path ?rows (Some (src_path src)) = Some p"
    and pg: "pages w' = set_checksum (page_id p) (mdx_checksum doc) ?rows"
    and rq: "requests w' = requests (after_lookup src w) @ rs"
    by (auto simp: after_lookup_simps)
  from find_upsert_same [of "pages w" "src_path src" "''github''" "src_source src" "mdx_meta doc"
      "map_option page_id (find_page_by_path (pages w) (src_parentPath src))"] found
  have p: "page_path p = src_path src" "page_checksum p = None"
    by (auto simp: upserted_rows_def)
  have "find_page_by_path (pages w') (Some (src_path src)) = Some (p\<lparr>page_checksum := Some (mdx_checksum doc)\<rparr>)"
    using found pg by (simp add: find_set_checksum)
  then show ?thesis
    using p rq doc_checksum [OF Regenerate(1)]
    by (auto simp: after_lookup_simps)
qed

lemma requests_since_append: "requests w' = requests w @ rs \<Longrightarrow> requests_since w w' = rs"
  by (simp add: requests_since_def)

lemma reconcile_again:
  assumes none: "src_parentPath src = None"
    and first: "reconcile E src w = (None, w1)"
    and second: "reconcile E src w1 = (r2, w2)"
  shows "pages w2 = pages w1 \<and> page_sections w2 = page_sections w1 \<and>
     filter is_embedding_request (requests_since w1 w2) = [] \<and>
     (\<forall>p. find_page_by_path (pages w1) (Some (src_path src)) = Some p \<longrightarrow>
        (parentPage_of (pages w1) p = None \<longrightarrow>
           filter is_store_mutation (requests_since w1 w2) = []) \<and>
        (parentPage_of (pages w1) p \<noteq> None \<and> r2 = None \<longrightarrow>
           filter is_store_mutation (requests_since w1 w2) = [UpdateParent (page_id p)]))"
proof -
  from reconcile_success [OF first] obtain p where
    p: "find_page_by_path (pages w1) (Some (src_path src)) = Some p"
    and sum: "page_checksum p = Some (source_checksum E src)"
    by blast
  from second show ?thesis
  proof (cases rule: reconcile_cases)
    case Failed
    then show ?thesis by (auto simp: requests_since_def after_lookup_def)
  next
    case (Unchanged doc ex)
    then have "parentPage_of (pages w1) ex = None" using none by simp
    then show ?thesis using Unchanged by (simp add: requests_since_def after_lookup_def)
  next
    case (Relink doc ex)
    note e = update_parent_effect [OF Relink(5)]
    have linked: "parentPage_of (pages w1) ex \<noteq> None" using Relink(4) none by auto
    have same: "pages w2 = pages w1"
      using e by (cases r2) (simp_all add: after_lookup_simps none find_page_by_path_None set_parent_None)
    show ?thesis
    proof (cases r2)
      case None
      then show ?thesis using e same linked Relink(2) none
        by (simp add: after_lookup_simps requests_since_def)
    next
      case (Some err)
      then show ?thesis using e same linked Relink(2)
        by (auto simp: after_lookup_simps requests_since_def)
    qed
  next
    case (Regenerate doc)
    then show ?thesis using p sum doc_checksum by fastforce
  qed
qed

text \<open>
  C2. When the stored page of a document carries the checksum of the fetched content and
  the same parent, its reconciliation changes neither table and sends no request to the
  embedding collaborator and no write to the store. A second reconciliation, right after
  one that ended without error (for a source without parent path, as the driver builds
  them), changes neither table and embeds nothing; it sends no write when the page has
  no stored parent page, but when it has one, the update of the parent link is sent
  again, and so in every later run: the link was not cleared, because the update carried
  no value.
\<close>

theorem second_run_repeats_parent_update:
  "(up_to_date E w src \<and> reconcile E src w = (r, w') \<longrightarrow>
      pages w' = pages w \<and> page_sections w' = page_sections w \<and>
      filter is_embedding_request (requests_since w w') = [] \<and>
      filter is_store_mutation (requests_since w w') = []) \<and>
   (src_parentPath src = None \<and> reconcile E src w = (None, w1) \<and> reconcile E src w1 = (r2, w2) \<longrightarrow>
      pages w2 = pages w1 \<and> page_sections w2 = page_sections w1 \<and>
      filter is_embedding_request (requests_since w1 w2) = [] \<and>
      (\<forall>p. find_page_by_path (pages w1) (Some (src_path src)) = Some p \<longrightarrow>
         (parentPage_of (pages w1) p = None \<longrightarrow>
            filter is_store_mutation (requests_since w1 w2) = []) \<and>
         (parentPage_of (pages w1) p \<noteq> None \<and> r2 = None \<longrightarrow>
            filter is_store_mutation (requests_since w1 w2) = [UpdateParent (page_id p)])))"
proof (rule conjI; rule impI)
  assume "up_to_date E w src \<and> reconcile E src w = (r, w')"
  then show "pages w' = pages w \<and> page_sections w' = page_sections w \<and>
      filter is_embedding_request (requests_since w w') = [] \<and>
      filter is_store_mutation (requests_since w w') = []"
    using reconcile_up_to_date by blast
next
  assume a: "src_parentPath src = None \<and> reconcile E src w = (None, w1) \<and> reconcile E src w1 = (r2, w2)"
  then show "pages w2 = pages w1 \<and> page_sections w2 = page_sections w1 \<and>
      filter is_embedding_request (requests_since w1 w2) = [] \<and>
      (\<forall>p. find_page_by_path (pages w1) (Some (src_path src)) = Some p \<longrightarrow>
         (parentPage_of (pages w1) p = None \<longrightarrow>
            filter is_store_mutation (requests_since w1 w2) = []) \<and>
         (parentPage_of (pages w1) p \<noteq> None \<and> r2 = None \<longrightarrow>
            filter is_store_mutation (requests_since w1 w2) = [UpdateParent (page_id p)]))"
    using reconcile_again [of src E w w1 r2 w2] by blast
qed

theorem second_run_repeats_parent_update_witness:
  "up_to_date example_env example_first_run example_c \<and>
   pages example_second_run = pages example_first_run \<and>
   page_sections example_second_run = page_sections example_first_run \<and>
   filter is_embedding_request (requests_since example_first_run example_second_run) = [] \<and>
   filter is_store_mutation (requests_since example_first_run example_second_run) = [] \<and>
   map page_parent_page_id (pages example_linked) = [None, Some 1] \<and>
   src_parentPath example_c = None \<and>
   fst (reconcile example_env example_c example_linked) = None \<and>
   fst (reconcile example_env example_c example_linked_once) = None \<and>
   pages example_linked_twice = pages example_linked_once \<and>
   pages example_linked_once = pages example_linked \<and>
   filter is_embedding_request (requests_since example_linked_once example_linked_twice) = [] \<and>
   filter is_store_mutation (requests_since example_linked_once example_linked_twice) = [UpdateParent 2] \<and>
   requests_since example_linked_once example_linked_twice
     = [HttpGet ''docs/c.md'', SelectPage (Some ''/c''), SelectPage None, UpdateParent 2]"
proof -
  let ?c = "\<lparr>page_id = 2, page_path = ''/c'', page_checksum = Some ''sha256:Plain'',
      page_type = ''github'', page_source = ''guide'', page_meta = None,
      page_parent_page_id = Some 1\<rparr>"
  have r2: "reconcile example_env example_c example_first_run
      = (fst (reconcile example_env example_c example_first_run), example_second_run)"
    unfolding example_second_run_def by simp
  have u: "up_to_date example_env example_first_run example_c" by code_simp
  note t1 = second_run_repeats_parent_update
    [where E = example_env and w = example_first_run and src = example_c
       and r = "fst (reconcile example_env example_c example_first_run)" and w' = example_second_run]
  from t1 r2 u have skip: "pages example_second_run = pages example_first_run \<and>
      page_sections example_second_run = page_sections example_first_run \<and>
      filter is_embedding_request (requests_since example_first_run example_second_run) = [] \<and>
      filter is_store_mutation (requests_since example_first_run example_second_run) = []"
    by blast
  have links: "map page_parent_page_id (pages example_linked) = [None, Some 1]" by code_simp
  have p: "src_parentPath example_c = None" by code_simp
  have ok1: "fst (reconcile example_env example_c example_linked) = None" by code_simp
  then have l1: "reconcile example_env example_c example_linked = (None, example_linked_once)"
    unfolding example_linked_once_def by (metis prod.collapse)
  have ok2: "fst (reconcile example_env example_c example_linked_once) = None" by code_simp
  then have l2: "reconcile example_env example_c example_linked_once = (None, example_linked_twice)"
    unfolding example_linked_twice_def by (metis prod.collapse)
  have found: "find_page_by_path (pages example_linked_once) (Some (src_path example_c)) = Some ?c"
    by code_simp
  have linked: "parentPage_of (pages example_linked_once) ?c \<noteq> None" by code_simp
  have first: "pages example_linked_once = pages example_linked" by code_simp
  have sent: "requests_since example_linked_once example_linked_twice
     = [HttpGet ''docs/c.md'', SelectPage (Some ''/c''), SelectPage None, UpdateParent 2]"
    by code_simp
  note t2 = second_run_repeats_parent_update
    [where E = example_env and w = example_linked and src = example_c
       and ?w1.0 = example_linked_once and ?r2.0 = None and ?w2.0 = example_linked_twice]
  from t2 p l1 l2 have again: "pages example_linked_twice = pages example_linked_once \<and>
      filter is_embedding_request (requests_since example_linked_once example_linked_twice) = [] \<and>
      (\<forall>p. find_page_by_path (pages example_linked_once) (Some (src_path example_c)) = Some p \<longrightarrow>
         (parentPage_of (pages example_linked_once) p \<noteq> None \<and> (None :: error option) = None \<longrightarrow>
            filter is_store_mutation (requests_since example_linked_once example_linked_twice)
              = [UpdateParent (page_id p)]))"
    by blast
  then have "filter is_store_mutation (requests_since example_linked_once example_linked_twice)
      = [UpdateParent (page_id ?c)]"
    using found linked by blast
  then have "filter is_store_mutation (requests_since example_linked_once example_linked_twice)
      = [UpdateParent 2]"
    by simp
  then show ?thesis using skip u links p ok1 ok2 again first sent by simp
qed

lemma set_parent_only_link:
  "map without_parent_link (set_parent i x ps) = map without_parent_link ps"
  by (cases x) (simp_all add: set_parent_def without_parent_link_def)

text \<open>
  C8. When the stored page carries the checksum of the fetched content but the path of
  its parent differs from the parent path of the source, reconciliation looks the
  parent up by path and sends one update, of the parent link of that page; the sections
  are untouched and no embedding is requested. When a page of the parent path exists,
  the link of that page, and of no other, is set to it and nothing else is changed. When
  none exists (the source has no parent path, or no page is stored under it), the
  update carries no value and the stored link stays on the old parent. When a request
  fails on the way, the pages are unchanged.
\<close>

theorem parent_relink_effect:
  "find_page_by_path (pages w) (Some (src_path src)) = Some ex \<and>
   page_checksum ex = Some (source_checksum E src) \<and>
   map_option page_path (parentPage_of (pages w) ex) \<noteq> src_parentPath src \<and>
   reconcile E src w = (r, w') \<longrightarrow>
     (r = None \<longrightarrow>
        requests_since w w' =
          [HttpGet (src_filePath src), SelectPage (Some (src_path src)),
           SelectPage (src_parentPath src), UpdateParent (page_id ex)] \<and>
        (\<forall>parent. find_page_by_path (pages w) (src_parentPath src) = Some parent \<longrightarrow>
           pages w' = map (\<lambda>p. if page_id p = page_id ex
                                then p\<lparr>page_parent_page_id := Some (page_id parent)\<rparr> else p) (pages w)) \<and>
        (find_page_by_path (pages w) (src_parentPath src) = None \<longrightarrow> pages w' = pages w)) \<and>
     (r \<noteq> None \<longrightarrow> pages w' = pages w) \<and>
     map without_parent_link (pages w') = map without_parent_link (pages w) \<and>
     page_sections w' = page_sections w \<and>
     filter is_embedding_request (requests_since w w') = [] \<and>
     (filter is_store_mutation (requests_since w w') = [] \<or>
      filter is_store_mutation (requests_since w w') = [UpdateParent (page_id ex)])"
proof
  assume a: "find_page_by_path (pages w) (Some (src_path src)) = Some ex \<and>
   page_checksum ex = Some (source_checksum E src) \<and>
   map_option page_path (parentPage_of (pages w) ex) \<noteq> src_parentPath src \<and>
   reconcile E src w = (r, w')"
  then have rec: "reconcile E src w = (r, w')" by simp
  from rec show "(r = None \<longrightarrow>
        requests_since w w' =
          [HttpGet (src_filePath src), SelectPage (Some (src_path src)),
           SelectPage (src_parentPath src), UpdateParent (page_id ex)] \<and>
        (\<forall>parent. find_page_by_path (pages w) (src_parentPath src) = Some parent \<longrightarrow>
           pages w' = map (\<lambda>p. if page_id p = page_id ex
                                then p\<lparr>page_parent_page_id := Some (page_id parent)\<rparr> else p) (pages w)) \<and>
        (find_page_by_path (pages w) (src_parentPath src) = None \<longrightarrow> pages w' = pages w)) \<and>
     (r \<noteq> None \<longrightarrow> pages w' = pages w) \<and>
     map without_parent_link (pages w') = map without_parent_link (pages w) \<and>
     page_sections w' = page_sections w \<and>
     filter is_embedding_request (requests_since w w') = [] \<and>
     (filter is_store_mutation (requests_since w w') = [] \<or>
      filter is_store_mutation (requests_since w w') = [UpdateParent (page_id ex)])"
  proof (cases rule: reconcile_cases)
    case Failed
    then show ?thesis by (auto simp: requests_since_def after_lookup_def)
  next
    case (Unchanged doc ex')
    then show ?thesis using a by simp
  next
    case (Relink doc ex')
    then have same: "ex' = ex" using a by simp
    note e = update_parent_effect [OF Relink(5)]
    show ?thesis
    proof (cases r)
      case None
      have frame: "map without_parent_link (pages w') = map without_parent_link (pages w)"
        using e None by (simp add: after_lookup_simps set_parent_only_link)
      have sent: "requests_since w w' =
          [HttpGet (src_filePath src), SelectPage (Some (src_path src)),
           SelectPage (src_parentPath src), UpdateParent (page_id ex)]"
        using e None same by (simp add: after_lookup_simps requests_since_def)
      have written: "pages w' = map (\<lambda>p. if page_id p = page_id ex
                                then p\<lparr>page_parent_page_id := Some (page_id parent)\<rparr> else p) (pages w)"
        if "find_page_by_path (pages w) (src_parentPath src) = Some parent" for parent
        using e None same that by (simp add: after_lookup_simps set_parent_def)
      have kept: "pages w' = pages w" if "find_page_by_path (pages w) (src_parentPath src) = None"
        using e None that by (simp add: after_lookup_simps set_parent_None)
      have sections: "page_sections w' = page_sections w"
        using e by (simp add: after_lookup_simps)
      show ?thesis using None frame sent written kept sections by simp
    next
      case (Some err)
      then show ?thesis using e same
        by (auto simp: after_lookup_simps requests_since_def)
    qed
  next
    case (Regenerate doc)
    then show ?thesis using a doc_checksum by fastforce
  qed
qed

theorem parent_relink_effect_witness:
  "fst (reconcile example_env example_c_under_a example_two_pages) = None \<and>
   map page_parent_page_id (pages example_two_pages) = [None, None] \<and>
   pages example_linked
     = map (\<lambda>p. if page_id p = 2 then p\<lparr>page_parent_page_id := Some 1\<rparr> else p) (pages example_two_pages) \<and>
   map page_parent_page_id (pages example_linked) = [None, Some 1] \<and>
   page_sections example_linked = page_sections example_two_pages \<and>
   requests_since example_two_pages example_linked
     = [HttpGet ''docs/c.md'', SelectPage (Some ''/c''), SelectPage (Some ''/a''), UpdateParent 2] \<and>
   src_parentPath example_c = None \<and>
   fst (reconcile example_env example_c example_linked) = None \<and>
   requests_since example_linked example_linked_once
     = [HttpGet ''docs/c.md'', SelectPage (Some ''/c''), SelectPage None, UpdateParent 2] \<and>
   pages example_linked_once = pages example_linked \<and>
   map page_parent_page_id (pages example_linked_once) = [None, Some 1] \<and>
   page_sections example_linked_once = page_sections example_linked"
proof -
  let ?ex = "\<lparr>page_id = 2, page_path = ''/c'', page_checksum = Some ''sha256:Plain'',
      page_type = ''github'', page_source = ''guide'', page_meta = None,
      page_parent_page_id = None\<rparr>"
  let ?a = "\<lparr>page_id = 1, page_path = ''/a'', page_checksum = Some ''sha256:Intro Usage Usage'',
      page_type = ''github'', page_source = ''guide'', page_meta = None,
      page_parent_page_id = None\<rparr>"
  let ?linked = "?ex\<lparr>page_parent_page_id := Some 1\<rparr>"
  have h1: "find_page_by_path (pages example_two_pages) (Some (src_path example_c_under_a)) = Some ?ex"
    by code_simp
  have h2: "page_checksum ?ex = Some (source_checksum example_env example_c_under_a)"
    by code_simp
  have h3: "map_option page_path (parentPage_of (pages example_two_pages) ?ex)
      \<noteq> src_parentPath example_c_under_a"
    by code_simp
  have ok: "fst (reconcile example_env example_c_under_a example_two_pages) = None"
    by code_simp
  then have h4: "reconcile example_env example_c_under_a example_two_pages = (None, example_linked)"
    unfolding example_linked_def by (metis prod.collapse)
  have parent: "find_page_by_path (pages example_two_pages) (src_parentPath example_c_under_a) = Some ?a"
    by code_simp
  have names: "src_filePath example_c_under_a = ''docs/c.md''" "src_path example_c_under_a = ''/c''"
    "src_parentPath example_c_under_a = Some ''/a''"
    by code_simp+
  note t = parent_relink_effect
    [where w = example_two_pages and src = example_c_under_a and ex = ?ex and E = example_env
       and r = None and w' = example_linked]
  from t h1 h2 h3 h4 have
    "requests_since example_two_pages example_linked =
        [HttpGet (src_filePath example_c_under_a), SelectPage (Some (src_path example_c_under_a)),
         SelectPage (src_parentPath example_c_under_a), UpdateParent (page_id ?ex)] \<and>
     (\<forall>parent. find_page_by_path (pages example_two_pages) (src_parentPath example_c_under_a) = Some parent \<longrightarrow>
        pages example_linked = map (\<lambda>p. if page_id p = page_id ?ex
                                then p\<lparr>page_parent_page_id := Some (page_id parent)\<rparr> else p)
                                 (pages example_two_pages)) \<and>
     page_sections example_linked = page_sections example_two_pages"
    by blast
  then have "requests_since example_two_pages example_linked =
        [HttpGet (src_filePath example_c_under_a), SelectPage (Some (src_path example_c_under_a)),
         SelectPage (src_parentPath example_c_under_a), UpdateParent (page_id ?ex)] \<and>
     pages example_linked = map (\<lambda>p. if page_id p = page_id ?ex
                                then p\<lparr>page_parent_page_id := Some (page_id ?a)\<rparr> else p)
                                 (pages example_two_pages) \<and>
     page_sections example_linked = page_sections example_two_pages"
    using parent by blast
  then have found: "requests_since example_two_pages example_linked =
        [HttpGet ''docs/c.md'', SelectPage (Some ''/c''), SelectPage (Some ''/a''), UpdateParent 2] \<and>
     pages example_linked
       = map (\<lambda>p. if page_id p = 2 then p\<lparr>page_parent_page_id := Some 1\<rparr> else p) (pages example_two_pages) \<and>
     page_sections example_linked = page_sections example_two_pages"
    unfolding names by simp
  have before: "map page_parent_page_id (pages example_two_pages) = [None, None]" by code_simp
  have links: "map page_parent_page_id (pages example_linked) = [None, Some 1]" by code_simp
  have g1: "find_page_by_path (pages example_linked) (Some (src_path example_c)) = Some ?linked"
    by code_simp
  have g2: "page_checksum ?linked = Some (source_checksum example_env example_c)"
    by code_simp
  have g3: "map_option page_path (parentPage_of (pages example_linked) ?linked) \<noteq> src_parentPath example_c"
    by code_simp
  have ok2: "fst (reconcile example_env example_c example_linked) = None" by code_simp
  then have g4: "reconcile example_env example_c example_linked = (None, example_linked_once)"
    unfolding example_linked_once_def by (metis prod.collapse)
  have none: "find_page_by_path (pages example_linked) (src_parentPath example_c) = None"
    by code_simp
  have names2: "src_filePath example_c = ''docs/c.md''" "src_path example_c = ''/c''"
    "src_parentPath example_c = None"
    by code_simp+
  note u = parent_relink_effect
    [where w = example_linked and src = example_c and ex = ?linked and E = example_env
       and r = None and w' = example_linked_once]
  from u g1 g2 g3 g4 have
    "requests_since example_linked example_linked_once =
        [HttpGet (src_filePath example_c), SelectPage (Some (src_path example_c)),
         SelectPage (src_parentPath example_c), UpdateParent (page_id ?linked)] \<and>
     (find_page_by_path (pages example_linked) (src_parentPath example_c) = None \<longrightarrow>
        pages example_linked_once = pages example_linked) \<and>
     page_sections example_linked_once = page_sections example_linked"
    by blast
  then have stale: "requests_since example_linked example_linked_once =
        [HttpGet ''docs/c.md'', SelectPage (Some ''/c''), SelectPage None, UpdateParent 2] \<and>
     pages example_linked_once = pages example_linked \<and>
     page_sections example_linked_once = page_sections example_linked"
    using none unfolding names2 by simp
  then have links2: "map page_parent_page_id (pages example_linked_once) = [None, Some 1]"
    using links by simp
  show ?thesis using ok before found links names2(3) ok2 stale links2 by simp
qed

lemma normalized_docs:
  "ext = ''.md'' \<or> ext = ''.mdx'' \<Longrightarrow> normalized (''docs'' @ rest @ ext) = rest"
  by (auto simp: normalized_def replace_docs_prefix_def replace_mdx_extension_def ends_with_def)

text \<open>
  C10. The source built for a discovered file has as its path the file path without a
  leading \<^verbatim>\<open>docs\<close> and without a trailing \<^verbatim>\<open>.md\<close> or \<^verbatim>\<open>.mdx\<close>, and its parent path is
  normalized in the same way. Reconciliation fetches the document under the file path,
  but looks the page up under the normalized path, and a reconciliation that ends
  without error leaves a page stored under the normalized path.
\<close>

theorem page_keyed_by_normalized_path:
  "src_path (GithubEmbeddingSource source filePath parentFilePath) = normalized filePath \<and>
   src_parentPath (GithubEmbeddingSource source filePath parentFilePath) = map_option normalized parentFilePath \<and>
   ((ext = ''.md'' \<or> ext = ''.mdx'') \<longrightarrow> normalized (''docs'' @ rest @ ext) = rest) \<and>
   (reconcile E (GithubEmbeddingSource source filePath parentFilePath) w = (None, w') \<longrightarrow>
      (\<exists>p. find_page_by_path (pages w') (Some (normalized filePath)) = Some p \<and>
           page_path p = normalized filePath) \<and>
      take 2 (requests_since w w') = [HttpGet filePath, SelectPage (Some (normalized filePath))])"
proof -
  let ?src = "GithubEmbeddingSource source filePath parentFilePath"
  have path: "src_path ?src = normalized filePath"
    by (simp add: GithubEmbeddingSource_def normalized_def)
  have parent: "src_parentPath ?src = map_option normalized parentFilePath"
    by (cases parentFilePath) (simp_all add: GithubEmbeddingSource_def normalized_def)
  have fp: "src_filePath ?src = filePath"
    by (simp add: GithubEmbeddingSource_def)
  have keyed: "(\<exists>p. find_page_by_path (pages w') (Some (normalized filePath)) = Some p \<and>
           page_path p = normalized filePath) \<and>
      take 2 (requests_since w w') = [HttpGet filePath, SelectPage (Some (normalized filePath))]"
    if "reconcile E ?src w = (None, w')"
    using reconcile_success [OF that] unfolding path fp
    by (auto simp: requests_since_def)
  show ?thesis using path parent keyed normalized_docs by blast
qed

theorem page_keyed_by_normalized_path_witness:
  "src_path example_intro = ''/01-app/intro'' \<and>
   src_parentPath example_intro = Some ''/01-app'' \<and>
   normalized ''docs/01-app/intro.mdx'' = ''/01-app/intro'' \<and>
   (\<exists>p. find_page_by_path (pages (snd (reconcile example_env example_intro empty_world)))
          (Some ''/01-app/intro'') = Some p \<and> page_path p = ''/01-app/intro'') \<and>
   take 2 (requests_since empty_world (snd (reconcile example_env example_intro empty_world)))
     = [HttpGet ''docs/01-app/intro.mdx'', SelectPage (Some ''/01-app/intro'')]"
proof -
  let ?w' = "snd (reconcile example_env example_intro empty_world)"
  have ok: "fst (reconcile example_env example_intro empty_world) = None"
    by code_simp
  then have run: "reconcile example_env
      (GithubEmbeddingSource ''guide'' ''docs/01-app/intro.mdx'' (Some ''docs/01-app'')) empty_world
      = (None, ?w')"
    unfolding example_intro_def by (metis prod.collapse)
  have ext: "''.mdx'' = ''.md'' \<or> ''.mdx'' = ''.mdx''" by simp
  note t = page_keyed_by_normalized_path
    [where source = "''guide''" and filePath = "''docs/01-app/intro.mdx''"
       and parentFilePath = "Some ''docs/01-app''" and ext = "''.mdx''" and rest = "''/01-app/intro''"
       and E = example_env and w = empty_world and w' = ?w']
  from t ext have n: "normalized (''docs'' @ ''/01-app/intro'' @ ''.mdx'') = ''/01-app/intro''"
    by blast
  then have n': "normalized ''docs/01-app/intro.mdx'' = ''/01-app/intro''" by simp
  from t run have
    "src_path example_intro = normalized ''docs/01-app/intro.mdx'' \<and>
     src_parentPath example_intro = map_option normalized (Some ''docs/01-app'') \<and>
     (\<exists>p. find_page_by_path (pages ?w') (Some (normalized ''docs/01-app/intro.mdx'')) = Some p \<and>
          page_path p = normalized ''docs/01-app/intro.mdx'') \<and>
     take 2 (requests_since empty_world ?w')
       = [HttpGet ''docs/01-app/intro.mdx'', SelectPage (Some (normalized ''docs/01-app/intro.mdx''))]"
    unfolding example_intro_def by blast
  moreover have "normalized ''docs/01-app'' = ''/01-app''" by code_simp
  ultimately show ?thesis using n' by simp
qed

lemma logged_since_append: "console_error w' = console_error w @ ls \<Longrightarrow> logged_since w w' = ls"
  by (simp add: logged_since_def)

lemma find_upserted_rows:
  "\<exists>p. find_page_by_path (upserted_rows src doc ps) (Some (src_path src)) = Some p \<and>
     page_path p = src_path src \<and> page_checksum p = None"
  using find_upsert_same [of ps "src_path src" "''github''" "src_source src" "mdx_meta doc"
      "map_option page_id (find_page_by_path ps (src_parentPath src))"]
  by (auto simp: upserted_rows_def)

text \<open>
  The order of the writes of one regeneration. Whenever the reconciliation of a source
  leaves its page with a non-null checksum that the page did not carry before, the run
  ended without error, the checksum is that of the fetched document, and every section
  of the document was embedded and inserted, in document order, before the request that
  wrote the checksum. Whenever the embedding or the insertion of a section failed (the
  inner \<^verbatim>\<open>catch\<close> wrote its line), the page is left with a null checksum.
\<close>

lemma checksum_follows_all_sections:
  "reconcile E src w = (r, w') \<longrightarrow>
     (\<forall>p c. find_page_by_path (pages w') (Some (src_path src)) = Some p \<and>
            page_checksum p = Some c \<and>
            map_option page_checksum (find_page_by_path (pages w) (Some (src_path src))) \<noteq> Some (Some c) \<longrightarrow>
        r = None \<and>
        (\<exists>doc kept before.
           processMdxForSearch E (fetchRaw E (src_filePath src)) = Inr doc \<and>
           c = mdx_checksum doc \<and>
           set kept \<subseteq> set (page_sections w) \<and>
           page_sections w' = kept @ map (section_row E (page_id p)) (mdx_sections doc) \<and>
           requests_since w w' = before @
             concat (map (section_requests (page_id p)) (mdx_sections doc)) @ [UpdateChecksum (page_id p)])) \<and>
     (\<forall>input. SectionFailed (src_path src) input \<in> set (logged_since w w') \<longrightarrow>
        (\<exists>p. find_page_by_path (pages w') (Some (src_path src)) = Some p \<and> page_checksum p = None))"
proof
  assume rec: "reconcile E src w = (r, w')"
  let ?key = "Some (src_path src)"
  let ?A = "\<forall>p c. find_page_by_path (pages w') ?key = Some p \<and>
            page_checksum p = Some c \<and>
            map_option page_checksum (find_page_by_path (pages w) ?key) \<noteq> Some (Some c) \<longrightarrow>
        r = None \<and>
        (\<exists>doc kept before.
           processMdxForSearch E (fetchRaw E (src_filePath src)) = Inr doc \<and>
           c = mdx_checksum doc \<and>
           set kept \<subseteq> set (page_sections w) \<and>
           page_sections w' = kept @ map (section_row E (page_id p)) (mdx_sections doc) \<and>
           requests_since w w' = before @
             concat (map (section_requests (page_id p)) (mdx_sections doc)) @ [UpdateChecksum (page_id p)])"
  let ?B = "\<forall>input. SectionFailed (src_path src) input \<in> set (logged_since w w') \<longrightarrow>
        (\<exists>p. find_page_by_path (pages w') ?key = Some p \<and> page_checksum p = None)"
  have same_checksum: "?A \<and> ?B"
    if same: "map_option page_checksum (find_page_by_path (pages w') ?key)
        = map_option page_checksum (find_page_by_path (pages w) ?key)"
      and quiet: "console_error w' = console_error w"
  proof -
    have B: "?B" using quiet by (simp add: logged_since_def)
    have A: "?A"
    proof (intro allI impI)
      fix p c
      assume a: "find_page_by_path (pages w') ?key = Some p \<and> page_checksum p = Some c \<and>
            map_option page_checksum (find_page_by_path (pages w) ?key) \<noteq> Some (Some c)"
      then have "map_option page_checksum (find_page_by_path (pages w') ?key) = Some (Some c)" by simp
      then have "map_option page_checksum (find_page_by_path (pages w) ?key) = Some (Some c)"
        unfolding same .
      then have False using a by blast
      then show "r = None \<and>
        (\<exists>doc kept before.
           processMdxForSearch E (fetchRaw E (src_filePath src)) = Inr doc \<and>
           c = mdx_checksum doc \<and>
           set kept \<subseteq> set (page_sections w) \<and>
           page_sections w' = kept @ map (section_row E (page_id p)) (mdx_sections doc) \<and>
           requests_since w w' = before @
             concat (map (section_requests (page_id p)) (mdx_sections doc)) @ [UpdateChecksum (page_id p)])"
        by simp
    qed
    show ?thesis using A B by (rule conjI)
  qed
  have unchanged: "?A \<and> ?B" if "pages w' = pages w" "console_error w' = console_error w"
    using that by (intro same_checksum) simp_all
  from rec show "?A \<and> ?B"
  proof (cases rule: reconcile_cases)
    case Failed
    then show ?thesis by (intro unchanged)
  next
    case (Unchanged doc ex)
    then show ?thesis by (intro unchanged) (simp_all add: after_lookup_simps)
  next
    case (Relink doc ex)
    note e = update_parent_effect [OF Relink(5)]
    have "map_option page_checksum (find_page_by_path (pages w') ?key)
        = map_option page_checksum (find_page_by_path (pages w) ?key)"
      using e by (cases r) (simp_all add: after_lookup_simps set_parent_checksums)
    moreover have "console_error w' = console_error w"
      using e by (simp add: after_lookup_simps)
    ultimately show ?thesis by (intro same_checksum)
  next
    case (Regenerate doc)
    let ?rows = "upserted_rows src doc (pages w)"
    obtain p0 where p0: "find_page_by_path ?rows ?key = Some p0" "page_checksum p0 = None"
      using find_upserted_rows by blast
    from regenerate_cases [OF Regenerate(3)]
    consider
      (early) "pages w' = pages w" "console_error w' = console_error w"
    | (partial) "r \<noteq> None" "pages w' = ?rows"
    | (complete) p kept before where "r = None" "console_error w' = console_error w"
        "find_page_by_path ?rows ?key = Some p"
        "pages w' = set_checksum (page_id p) (mdx_checksum doc) ?rows"
        "set kept \<subseteq> set (page_sections w)"
        "page_sections w' = kept @ map (section_row E (page_id p)) (mdx_sections doc)"
        "requests w' = requests (after_lookup src w) @ before @
             concat (map (section_requests (page_id p)) (mdx_sections doc)) @ [UpdateChecksum (page_id p)]"
      by (auto simp: after_lookup_simps)
    then show ?thesis
    proof cases
      case early
      then show ?thesis by (intro unchanged)
    next
      case partial
      then show ?thesis using p0 by auto
    next
      case complete
      have found: "find_page_by_path (pages w') ?key = Some (p\<lparr>page_checksum := Some (mdx_checksum doc)\<rparr>)"
        using complete(3,4) by (simp add: find_set_checksum)
      have rq: "requests_since w w' =
          ([HttpGet (src_filePath src), SelectPage ?key] @ before) @
          concat (map (section_requests (page_id p)) (mdx_sections doc)) @ [UpdateChecksum (page_id p)]"
        using complete(7) by (simp add: requests_since_def after_lookup_simps)
      have B: "?B" using complete(2) by (simp add: logged_since_def)
      have A: "?A"
      proof (intro allI impI)
        fix q c
        assume a: "find_page_by_path (pages w') ?key = Some q \<and> page_checksum q = Some c \<and>
            map_option page_checksum (find_page_by_path (pages w) ?key) \<noteq> Some (Some c)"
        then have q: "q = p\<lparr>page_checksum := Some (mdx_checksum doc)\<rparr>" using found by simp
        then have "c = mdx_checksum doc" "page_id q = page_id p" using a by auto
        then show "r = None \<and>
          (\<exists>doc kept before.
             processMdxForSearch E (fetchRaw E (src_filePath src)) = Inr doc \<and>
             c = mdx_checksum doc \<and>
             set kept \<subseteq> set (page_sections w) \<and>
             page_sections w' = kept @ map (section_row E (page_id q)) (mdx_sections doc) \<and>
             requests_since w w' = before @
               concat (map (section_requests (page_id q)) (mdx_sections doc)) @ [UpdateChecksum (page_id q)])"
          using complete(1,5,6) Regenerate(1) rq by metis
      qed
      show ?thesis using A B by (rule conjI)
    qed
  qed
qed

lemma checksum_follows_all_sections_example:
  "(\<exists>doc kept before.
      processMdxForSearch example_env (fetchRaw example_env (src_filePath example_c)) = Inr doc \<and>
      ''sha256:Plain'' = mdx_checksum doc \<and>
      set kept \<subseteq> set (page_sections empty_world) \<and>
      page_sections example_first_run = kept @ map (section_row example_env 1) (mdx_sections doc) \<and>
      requests_since empty_world example_first_run = before @
        concat (map (section_requests 1) (mdx_sections doc)) @ [UpdateChecksum 1]) \<and>
   SectionFailed ''/a'' ''UsageDo X'' \<in> set (logged_since empty_world example_interrupted_run) \<and>
   (\<exists>p. find_page_by_path (pages example_interrupted_run) (Some ''/a'') = Some p \<and>
        page_checksum p = None)"
proof -
  let ?p = "\<lparr>page_id = 1, page_path = ''/c'', page_checksum = Some ''sha256:Plain'',
      page_type = ''github'', page_source = ''guide'', page_meta = None,
      page_parent_page_id = None\<rparr>"
  have run1: "reconcile example_env example_c empty_world
      = (fst (reconcile example_env example_c empty_world), example_first_run)"
    unfolding example_first_run_def by simp
  have h1: "find_page_by_path (pages example_first_run) (Some (src_path example_c)) = Some ?p \<and>
      page_checksum ?p = Some ''sha256:Plain'' \<and>
      map_option page_checksum (find_page_by_path (pages empty_world) (Some (src_path example_c)))
        \<noteq> Some (Some ''sha256:Plain'')"
    by code_simp
  note t1 = checksum_follows_all_sections
    [where E = example_env and src = example_c and w = empty_world
       and r = "fst (reconcile example_env example_c empty_world)" and w' = example_first_run]
  from t1 run1 have "\<forall>p c. find_page_by_path (pages example_first_run) (Some (src_path example_c)) = Some p \<and>
            page_checksum p = Some c \<and>
            map_option page_checksum (find_page_by_path (pages empty_world) (Some (src_path example_c)))
              \<noteq> Some (Some c) \<longrightarrow>
        fst (reconcile example_env example_c empty_world) = None \<and>
        (\<exists>doc kept before.
           processMdxForSearch example_env (fetchRaw example_env (src_filePath example_c)) = Inr doc \<and>
           c = mdx_checksum doc \<and>
           set kept \<subseteq> set (page_sections empty_world) \<and>
           page_sections example_first_run = kept @ map (section_row example_env (page_id p)) (mdx_sections doc) \<and>
           requests_since empty_world example_first_run = before @
             concat (map (section_requests (page_id p)) (mdx_sections doc)) @ [UpdateChecksum (page_id p)])"
    by blast
  from this [rule_format, of ?p "''sha256:Plain''"] h1
  have first: "\<exists>doc kept before.
      processMdxForSearch example_env (fetchRaw example_env (src_filePath example_c)) = Inr doc \<and>
      ''sha256:Plain'' = mdx_checksum doc \<and>
      set kept \<subseteq> set (page_sections empty_world) \<and>
      page_sections example_first_run = kept @ map (section_row example_env 1) (mdx_sections doc) \<and>
      requests_since empty_world example_first_run = before @
        concat (map (section_requests 1) (mdx_sections doc)) @ [UpdateChecksum 1]"
    by simp
  have run2: "reconcile example_interrupted_env example_a empty_world
      = (fst (reconcile example_interrupted_env example_a empty_world), example_interrupted_run)"
    unfolding example_interrupted_run_def by simp
  have h2: "SectionFailed (src_path example_a) ''UsageDo X''
      \<in> set (logged_since empty_world example_interrupted_run)"
    by code_simp
  have path: "src_path example_a = ''/a''" by code_simp
  note t2 = checksum_follows_all_sections
    [where E = example_interrupted_env and src = example_a and w = empty_world
       and r = "fst (reconcile example_interrupted_env example_a empty_world)"
       and w' = example_interrupted_run]
  from t2 run2 h2 have "\<exists>p. find_page_by_path (pages example_interrupted_run) (Some (src_path example_a)) = Some p \<and>
      page_checksum p = None"
    by blast
  then show ?thesis using first h2 unfolding path by simp
qed

text \<open>
  C1. The lemma above speaks of the checksums a run writes; the claim speaks of every
  page a run processes, and fails for a page whose content has changed. The old sections
  are deleted first, then the parent page is looked up, and only then the upsert clears
  the checksum. When the lookup (or the upsert) fails, the \<^verbatim>\<open>catch\<close> of the driver reports
  the page as marked with a null checksum, but nothing has cleared it: the page is left
  with the checksum of its old content and with no section at all. Here the store holds
  page c with one section, the content of c has changed, and the lookup of the parent
  page fails; a failed upsert leaves the same. If the content is the old one again by
  the next run, that run skips the page, whose checksum matches, and the page stays
  without sections.
\<close>

theorem failed_regeneration_keeps_old_checksum:
  "map page_path (pages example_first_run) = [''/c''] \<and>
   map page_checksum (pages example_first_run) = [Some ''sha256:Plain''] \<and>
   map ps_content (page_sections example_first_run) = [''Just text''] \<and>
   source_checksum example_changed_env example_c = ''sha256:Changed'' \<and>
   map_sum id (\<lambda>doc. map section_content (mdx_sections doc))
     (processMdxForSearch example_changed_env (fetchRaw example_changed_env ''docs/c.md''))
     = Inr [''New text''] \<and>
   requests_since example_first_run example_failed_regeneration
     = [HttpGet ''docs/c.md'', SelectPage (Some ''/c''), DeleteSections 1, SelectPage None] \<and>
   logged_since example_first_run example_failed_regeneration = [PageFailed ''/c'' StoreError] \<and>
   map page_path (pages example_failed_regeneration) = [''/c''] \<and>
   map page_checksum (pages example_failed_regeneration) = [Some ''sha256:Plain''] \<and>
   page_sections example_failed_regeneration = [] \<and>
   requests_since example_first_run example_failed_upsert
     = [HttpGet ''docs/c.md'', SelectPage (Some ''/c''), DeleteSections 1, SelectPage None,
        UpsertPage ''/c''] \<and>
   logged_since example_first_run example_failed_upsert = [PageFailed ''/c'' StoreError] \<and>
   map page_checksum (pages example_failed_upsert) = [Some ''sha256:Plain''] \<and>
   page_sections example_failed_upsert = [] \<and>
   source_checksum example_env example_c = ''sha256:Plain'' \<and>
   requests_since example_failed_regeneration example_reverted_run
     = [HttpGet ''docs/c.md'', SelectPage (Some ''/c'')] \<and>
   logged_since example_failed_regeneration example_reverted_run = [] \<and>
   map page_checksum (pages example_reverted_run) = [Some ''sha256:Plain''] \<and>
   page_sections example_reverted_run = []"
  by code_simp








section \<open>Properties of the pipeline driver\<close>




text \<open>The driver builds every source from the path of its entry alone.\<close>

lemma embeddingSources_no_parent:
  "src \<in> set (embeddingSources entries) \<Longrightarrow> src_parentPath src = None"
  by (auto simp: embeddingSources_def GithubEmbeddingSource_def)







end
